theory Spec2Isabelle
  imports Complex_Main "HOL-Library.AList"
begin

section \<open>Python values\<close>

text \<open>
  The simulator is Python. Its numeric fields hold ints and floats; they are modelled
  as \<open>real\<close> (exact arithmetic, so \<open>/\<close> is Python's true division on finite values).
  Flags such as \<open>isEnabled\<close> and \<open>closeCommand\<close> hold \<open>True\<close>, \<open>False\<close>, \<open>0\<close> or \<open>1\<close> and
  are only ever tested for truthiness; they are modelled as \<open>int\<close> with \<open>True = 1\<close>.
\<close>

datatype py_error =
    KeyError
  | IndexError
  | TypeError
  | AttributeError
  | NotImplementedError
  | NoSuchSlaveException

definition truthy :: "int \<Rightarrow> bool" where
  "truthy v = (v \<noteq> 0)"

definition py_not :: "int \<Rightarrow> int" where
  "py_not v = (if truthy v then 0 else 1)"

text \<open>\<open>int(x)\<close> on a number truncates towards zero.\<close>

definition py_int :: "real \<Rightarrow> int" where
  "py_int x = (if 0 \<le> x then \<lfloor>x\<rfloor> else \<lceil>x\<rceil>)"

section \<open>Device classes of modules.py\<close>

subsection \<open>Inverter\<close>

record inverter =
  i_irradiance :: real
  i_realPowerSp :: real
  i_reactivePowerSp :: real
  i_isEnabled :: int
  i_maxRealPower :: real
  i_maxReactivePower :: real
  i_voltageL1 :: real
  i_voltageL2 :: real
  i_voltageL3 :: real

definition Inverter_init :: inverter where
  "Inverter_init =
     \<lparr> i_irradiance = 0, i_realPowerSp = 2000, i_reactivePowerSp = 0, i_isEnabled = 1,
       i_maxRealPower = 2000, i_maxReactivePower = 1500,
       i_voltageL1 = 34, i_voltageL2 = 34, i_voltageL3 = 34 \<rparr>"

definition Inverter_realPower :: "inverter \<Rightarrow> real" where
  "Inverter_realPower i =
     (if truthy (i_isEnabled i) then
        (let newRealPower = i_irradiance i / 950 * i_maxRealPower i in
         if i_realPowerSp i < newRealPower then i_realPowerSp i else newRealPower)
      else 0)"

definition Inverter_reactivePower :: "inverter \<Rightarrow> real" where
  "Inverter_reactivePower i =
     (if truthy (i_isEnabled i) then
        (let newReactivePower = i_maxReactivePower i in
         if i_reactivePowerSp i < newReactivePower then i_reactivePowerSp i
         else newReactivePower)
      else 0)"

subsection \<open>Meter\<close>

record meter =
  m_realPower :: real
  m_reactivePower :: real
  m_voltageL1 :: real
  m_voltageL2 :: real
  m_voltageL3 :: real
  m_currentL1 :: real
  m_currentL2 :: real
  m_currentL3 :: real
  m_frequency :: real

definition Meter_init :: meter where
  "Meter_init =
     \<lparr> m_realPower = 0, m_reactivePower = 0,
       m_voltageL1 = 0, m_voltageL2 = 0, m_voltageL3 = 0,
       m_currentL1 = 0, m_currentL2 = 0, m_currentL3 = 0, m_frequency = 60 \<rparr>"

text \<open>
  The two \<open>powerFactor\<close> properties have the same body; \<open>powerFactorOf\<close> is that body
  over the values of \<open>self.realPower\<close> and \<open>self.reactivePower\<close>.
\<close>

definition powerFactorOf :: "real \<Rightarrow> real \<Rightarrow> real" where
  "powerFactorOf realPower reactivePower =
     (if reactivePower \<noteq> 0 then
        \<bar>reactivePower\<bar> / reactivePower * realPower / sqrt (realPower ^ 2 + reactivePower ^ 2)
      else 1)"

definition Meter_powerFactor :: "meter \<Rightarrow> real" where
  "Meter_powerFactor m = powerFactorOf (m_realPower m) (m_reactivePower m)"

subsection \<open>Breaker\<close>

text \<open>
  The backing fields \<open>_realPower\<close>, ... are \<open>b_priv_realPower\<close>, ...; the attributes
  \<open>breakers\<close>, \<open>inverters\<close> and \<open>transformers\<close> hold what \<open>connections.get\<close> returned
  (\<open>None\<close> or a list of device references).
\<close>

record breaker =
  b_priv_realPower :: real
  b_priv_reactivePower :: real
  b_priv_voltageL1 :: real
  b_priv_voltageL2 :: real
  b_priv_voltageL3 :: real
  b_priv_frequency :: real
  b_closeCommand :: int
  b_breakers :: "nat list option"
  b_inverters :: "nat list option"
  b_transformers :: "nat list option"

definition Breaker_init :: breaker where
  "Breaker_init =
     \<lparr> b_priv_realPower = 0, b_priv_reactivePower = 0,
       b_priv_voltageL1 = 0, b_priv_voltageL2 = 0, b_priv_voltageL3 = 0,
       b_priv_frequency = 60, b_closeCommand = 1,
       b_breakers = Some [], b_inverters = Some [], b_transformers = Some [] \<rparr>"

definition isBreakerClosed :: "breaker \<Rightarrow> bool" where
  "isBreakerClosed b = (\<not> truthy (b_closeCommand b))"

definition Breaker_realPower :: "breaker \<Rightarrow> real" where
  "Breaker_realPower b = (if isBreakerClosed b then 0 else b_priv_realPower b)"

definition Breaker_reactivePower :: "breaker \<Rightarrow> real" where
  "Breaker_reactivePower b = (if isBreakerClosed b then 0 else b_priv_reactivePower b)"

definition Breaker_voltageL1 :: "breaker \<Rightarrow> real" where
  "Breaker_voltageL1 b = (if isBreakerClosed b then 0 else b_priv_voltageL1 b)"

definition Breaker_voltageL2 :: "breaker \<Rightarrow> real" where
  "Breaker_voltageL2 b = (if isBreakerClosed b then 0 else b_priv_voltageL2 b)"

definition Breaker_voltageL3 :: "breaker \<Rightarrow> real" where
  "Breaker_voltageL3 b = (if isBreakerClosed b then 0 else b_priv_voltageL3 b)"

definition Breaker_frequency :: "breaker \<Rightarrow> real" where
  "Breaker_frequency b = (if isBreakerClosed b then 0 else b_priv_frequency b)"

definition Breaker_powerFactor :: "breaker \<Rightarrow> real" where
  "Breaker_powerFactor b = powerFactorOf (Breaker_realPower b) (Breaker_reactivePower b)"

subsection \<open>Transformer\<close>

record transformer =
  t_priv_realPower :: real
  t_priv_reactivePower :: real
  t_priv_voltageL1 :: real
  t_priv_voltageL2 :: real
  t_priv_voltageL3 :: real
  t_ratio :: real
  t_breakers :: "nat list option"

definition Transformer_init :: transformer where
  "Transformer_init =
     \<lparr> t_priv_realPower = 0, t_priv_reactivePower = 0,
       t_priv_voltageL1 = 0, t_priv_voltageL2 = 0, t_priv_voltageL3 = 0,
       t_ratio = 38 / 10, t_breakers = Some [] \<rparr>"

definition Transformer_realPower :: "transformer \<Rightarrow> real" where
  "Transformer_realPower t = t_priv_realPower t"

definition Transformer_reactivePower :: "transformer \<Rightarrow> real" where
  "Transformer_reactivePower t = t_priv_reactivePower t"

definition Transformer_voltageL1 :: "transformer \<Rightarrow> real" where
  "Transformer_voltageL1 t = t_priv_voltageL1 t * t_ratio t"

definition Transformer_voltageL2 :: "transformer \<Rightarrow> real" where
  "Transformer_voltageL2 t = t_priv_voltageL2 t * t_ratio t"

definition Transformer_voltageL3 :: "transformer \<Rightarrow> real" where
  "Transformer_voltageL3 t = t_priv_voltageL3 t * t_ratio t"

subsection \<open>SimulationController\<close>

record controller =
  c_simWeatherEnabled :: bool
  c_irradiance :: real
  c_poaMax :: real
  c_poaMin :: real
  c_irradianceDeviation :: real
  c_tempDeviation :: real
  c_voltageStepDifference :: real
  c_acLossRatio :: real
  c_freqDroop :: real
  c_voltageDeviation :: real
  c_voltageHighLimit :: real
  c_voltageLowLimit :: real
  c_weatherState :: int
  c_voltageStepCommand :: int
  c_nominalGridVoltage :: real
  c_voltageEffectPerVar :: real
  c_voltageMaxDeviation :: real
  c_voltageChangeFromPlant :: real
  c_reactivePowerMaxDeviation :: real

definition SimulationController_init :: controller where
  "SimulationController_init =
     \<lparr> c_simWeatherEnabled = False, c_irradiance = 900, c_poaMax = 1000, c_poaMin = 0,
       c_irradianceDeviation = 20, c_tempDeviation = 0, c_voltageStepDifference = 0,
       c_acLossRatio = 98, c_freqDroop = 0, c_voltageDeviation = 5,
       c_voltageHighLimit = 142, c_voltageLowLimit = 134, c_weatherState = 0,
       c_voltageStepCommand = 0, c_nominalGridVoltage = 138,
       c_voltageEffectPerVar = 5 / 10000, c_voltageMaxDeviation = 5 / 100,
       c_voltageChangeFromPlant = 0, c_reactivePowerMaxDeviation = 25 \<rparr>"

section \<open>The program state\<close>

text \<open>
  Devices are Python objects that refer to each other, so they live in a heap \<open>objs\<close>
  indexed by references; a reference to no object cannot arise in Python and is the
  model-only outcome \<open>NoObject\<close>. A device's class is the constructor of its \<open>kind\<close>.
  \<open>config\<close> is the device's entry of the topology description and \<open>connections\<close>
  the dictionary of connected devices, in insertion order.
\<close>

record dev_cfg =
  cfg_name :: "string option"
  cfg_connections :: "(string \<times> string list) list option"

datatype kind =
    Inverter inverter
  | Meter meter
  | Breaker breaker
  | Transformer transformer
  | SimulationController controller

record module =
  slaveId :: nat
  name :: string
  moduleGroup :: string
  connections :: "(string \<times> nat list) list"
  config :: dev_cfg
  kind :: kind

text \<open>
  A \<open>ModbusSlaveContext\<close> refers to its four \<open>ModbusSequentialDataBlock\<close>s; the value
  lists of all blocks are the heap \<open>blocks\<close>, a block's reference being its index. The
  \<open>ModbusServerContext\<close> is \<open>slaves\<close>; \<open>buildContext\<close> hands the one context to every
  device, so \<open>modbusContext\<close> is not a field of each device. \<open>rnd\<close> is the source of the
  numbers \<open>random.randint\<close> will draw, \<open>trace\<close> the register accesses performed so far,
  \<open>errlog\<close> what \<open>logger.error\<close> was called with.
\<close>

record slave_ctx =
  di :: nat
  co :: nat
  hr :: nat
  ir :: nat

datatype event =
    GetValues nat nat nat nat
  | SetValues nat nat nat "int list"

datatype error = Py py_error | NoObject

record world =
  objs :: "nat \<Rightarrow> module option"
  devices :: "(string \<times> nat list) list"
  blocks :: "int list list"
  slaves :: "nat \<Rightarrow> slave_ctx option"
  rnd :: "nat \<Rightarrow> int"
  trace :: "event list"
  errlog :: "error list"

type_synonym outcome = "error option \<times> world"

definition seq :: "(world \<Rightarrow> outcome) \<Rightarrow> (world \<Rightarrow> outcome) \<Rightarrow> world \<Rightarrow> outcome" where
  "seq f g w = (case f w of (None, w') \<Rightarrow> g w' | (Some e, w') \<Rightarrow> (Some e, w'))"

fun for_each :: "('a \<Rightarrow> world \<Rightarrow> outcome) \<Rightarrow> 'a list \<Rightarrow> world \<Rightarrow> outcome" where
  "for_each f [] w = (None, w)"
| "for_each f (x # xs) w =
     (case f x w of (None, w') \<Rightarrow> for_each f xs w' | (Some e, w') \<Rightarrow> (Some e, w'))"

text \<open>
  \<open>random.randint(a, b)\<close> returns some integer of \<open>[a, b]\<close>: the next number of the
  source, reduced into the interval, so that every source gives draws in range and every
  sequence of draws in range comes from some source.
\<close>

definition randint :: "int \<Rightarrow> int \<Rightarrow> world \<Rightarrow> int \<times> world" where
  "randint a b w = (a + rnd w 0 mod (b - a + 1), w\<lparr>rnd := (\<lambda>n. rnd w (Suc n))\<rparr>)"

section \<open>Register files (dataStores.py and the pymodbus context)\<close>

text \<open>
  The function code selects the bank: 1 coils, 2 discrete inputs, 3 holding registers,
  4 input registers. \<open>getValues\<close> and \<open>setValues\<close> are the library's slice read and slice
  assignment on the bank's value list; the library shifts the address by the same
  constant in both, which is left out.
\<close>

definition decode :: "nat \<Rightarrow> slave_ctx \<Rightarrow> nat option" where
  "decode fc s =
     (if fc = 1 then Some (co s) else if fc = 2 then Some (di s)
      else if fc = 3 then Some (hr s) else if fc = 4 then Some (ir s) else None)"

definition slice_assign :: "'a list \<Rightarrow> nat \<Rightarrow> 'a list \<Rightarrow> 'a list" where
  "slice_assign cells a vs = take a cells @ vs @ drop (a + length vs) cells"

definition setValues :: "nat \<Rightarrow> nat \<Rightarrow> nat \<Rightarrow> int list \<Rightarrow> world \<Rightarrow> outcome" where
  "setValues sid fc address vs w =
     (case slaves w sid of
        None \<Rightarrow> (Some (Py NoSuchSlaveException), w)
      | Some s \<Rightarrow>
          (case decode fc s of
             None \<Rightarrow> (Some (Py KeyError), w)
           | Some r \<Rightarrow>
               (None, w\<lparr>blocks := (blocks w)[r := slice_assign (blocks w ! r) address vs],
                        trace := trace w @ [SetValues sid fc address vs]\<rparr>)))"

definition getValues :: "nat \<Rightarrow> nat \<Rightarrow> nat \<Rightarrow> nat \<Rightarrow> world \<Rightarrow> (error + int list) \<times> world" where
  "getValues sid fc address count w =
     (case slaves w sid of
        None \<Rightarrow> (Inl (Py NoSuchSlaveException), w)
      | Some s \<Rightarrow>
          (case decode fc s of
             None \<Rightarrow> (Inl (Py KeyError), w)
           | Some r \<Rightarrow>
               (Inr (take count (drop address (blocks w ! r))),
                w\<lparr>trace := trace w @ [GetValues sid fc address count]\<rparr>)))"

text \<open>
  \<open>baseDataStore\<close> is built when the module is imported: four blocks of 100 zero cells,
  the first four blocks of the heap. \<open>copy.deepcopy\<close> of a slave context allocates four
  new blocks holding copies of the value lists.
\<close>

definition baseDataStore :: slave_ctx where
  "baseDataStore = \<lparr> di = 0, co = 1, hr = 2, ir = 3 \<rparr>"

definition base_blocks :: "int list list" where
  "base_blocks = [replicate 100 0, replicate 100 0, replicate 100 0, replicate 100 0]"

definition deepcopy :: "slave_ctx \<Rightarrow> int list list \<Rightarrow> slave_ctx \<times> int list list" where
  "deepcopy s bs =
     (\<lparr> di = length bs, co = length bs + 1, hr = length bs + 2, ir = length bs + 3 \<rparr>,
      bs @ [bs ! di s, bs ! co s, bs ! hr s, bs ! ir s])"

definition slaveId_of :: "nat \<Rightarrow> world \<Rightarrow> error + nat" where
  "slaveId_of r w = (case objs w r of None \<Rightarrow> Inl NoObject | Some m \<Rightarrow> Inr (slaveId m))"

definition allocate_slave :: "nat \<Rightarrow> world \<Rightarrow> outcome" where
  "allocate_slave r w =
     (case slaveId_of r w of
        Inl e \<Rightarrow> (Some e, w)
      | Inr sid \<Rightarrow>
          (let (s, bs) = deepcopy baseDataStore (blocks w)
           in (None, w\<lparr>blocks := bs, slaves := (slaves w)(sid \<mapsto> s)\<rparr>)))"

definition buildContext :: "world \<Rightarrow> outcome" where
  "buildContext w =
     for_each allocate_slave (concat (map snd (devices w))) (w\<lparr>slaves := Map.empty\<rparr>)"

section \<open>Attribute access on a referenced device\<close>

text \<open>
  Reading \<open>d.realPower\<close> works on every class that has the attribute or property and
  raises \<open>AttributeError\<close> on the others; assigning \<open>d.x = v\<close> sets the field, goes
  through the property's setter, or, on a class without \<open>x\<close>, creates an attribute that
  none of the modelled fields holds.
\<close>

fun realPower_of :: "kind \<Rightarrow> error + real" where
  "realPower_of (Inverter i) = Inr (Inverter_realPower i)"
| "realPower_of (Meter m) = Inr (m_realPower m)"
| "realPower_of (Breaker b) = Inr (Breaker_realPower b)"
| "realPower_of (Transformer t) = Inr (Transformer_realPower t)"
| "realPower_of (SimulationController c) = Inl (Py AttributeError)"

fun reactivePower_of :: "kind \<Rightarrow> error + real" where
  "reactivePower_of (Inverter i) = Inr (Inverter_reactivePower i)"
| "reactivePower_of (Meter m) = Inr (m_reactivePower m)"
| "reactivePower_of (Breaker b) = Inr (Breaker_reactivePower b)"
| "reactivePower_of (Transformer t) = Inr (Transformer_reactivePower t)"
| "reactivePower_of (SimulationController c) = Inl (Py AttributeError)"

fun voltageL1_of :: "kind \<Rightarrow> error + real" where
  "voltageL1_of (Inverter i) = Inr (i_voltageL1 i)"
| "voltageL1_of (Meter m) = Inr (m_voltageL1 m)"
| "voltageL1_of (Breaker b) = Inr (Breaker_voltageL1 b)"
| "voltageL1_of (Transformer t) = Inr (Transformer_voltageL1 t)"
| "voltageL1_of (SimulationController c) = Inl (Py AttributeError)"

fun voltageL2_of :: "kind \<Rightarrow> error + real" where
  "voltageL2_of (Inverter i) = Inr (i_voltageL2 i)"
| "voltageL2_of (Meter m) = Inr (m_voltageL2 m)"
| "voltageL2_of (Breaker b) = Inr (Breaker_voltageL2 b)"
| "voltageL2_of (Transformer t) = Inr (Transformer_voltageL2 t)"
| "voltageL2_of (SimulationController c) = Inl (Py AttributeError)"

fun voltageL3_of :: "kind \<Rightarrow> error + real" where
  "voltageL3_of (Inverter i) = Inr (i_voltageL3 i)"
| "voltageL3_of (Meter m) = Inr (m_voltageL3 m)"
| "voltageL3_of (Breaker b) = Inr (Breaker_voltageL3 b)"
| "voltageL3_of (Transformer t) = Inr (Transformer_voltageL3 t)"
| "voltageL3_of (SimulationController c) = Inl (Py AttributeError)"

fun frequency_of :: "kind \<Rightarrow> error + real" where
  "frequency_of (Meter m) = Inr (m_frequency m)"
| "frequency_of (Breaker b) = Inr (Breaker_frequency b)"
| "frequency_of k = Inl (Py AttributeError)"

fun set_realPower :: "real \<Rightarrow> kind \<Rightarrow> kind" where
  "set_realPower v (Meter m) = Meter (m\<lparr>m_realPower := v\<rparr>)"
| "set_realPower v (Breaker b) = Breaker (b\<lparr>b_priv_realPower := v\<rparr>)"
| "set_realPower v (Transformer t) = Transformer (t\<lparr>t_priv_realPower := v\<rparr>)"
| "set_realPower v k = k"

fun set_reactivePower :: "real \<Rightarrow> kind \<Rightarrow> kind" where
  "set_reactivePower v (Meter m) = Meter (m\<lparr>m_reactivePower := v\<rparr>)"
| "set_reactivePower v (Breaker b) = Breaker (b\<lparr>b_priv_reactivePower := v\<rparr>)"
| "set_reactivePower v (Transformer t) = Transformer (t\<lparr>t_priv_reactivePower := v\<rparr>)"
| "set_reactivePower v k = k"

fun set_voltageL1 :: "real \<Rightarrow> kind \<Rightarrow> kind" where
  "set_voltageL1 v (Inverter i) = Inverter (i\<lparr>i_voltageL1 := v\<rparr>)"
| "set_voltageL1 v (Meter m) = Meter (m\<lparr>m_voltageL1 := v\<rparr>)"
| "set_voltageL1 v (Breaker b) = Breaker (b\<lparr>b_priv_voltageL1 := v\<rparr>)"
| "set_voltageL1 v (Transformer t) = Transformer (t\<lparr>t_priv_voltageL1 := v\<rparr>)"
| "set_voltageL1 v k = k"

fun set_voltageL2 :: "real \<Rightarrow> kind \<Rightarrow> kind" where
  "set_voltageL2 v (Inverter i) = Inverter (i\<lparr>i_voltageL2 := v\<rparr>)"
| "set_voltageL2 v (Meter m) = Meter (m\<lparr>m_voltageL2 := v\<rparr>)"
| "set_voltageL2 v (Breaker b) = Breaker (b\<lparr>b_priv_voltageL2 := v\<rparr>)"
| "set_voltageL2 v (Transformer t) = Transformer (t\<lparr>t_priv_voltageL2 := v\<rparr>)"
| "set_voltageL2 v k = k"

fun set_voltageL3 :: "real \<Rightarrow> kind \<Rightarrow> kind" where
  "set_voltageL3 v (Inverter i) = Inverter (i\<lparr>i_voltageL3 := v\<rparr>)"
| "set_voltageL3 v (Meter m) = Meter (m\<lparr>m_voltageL3 := v\<rparr>)"
| "set_voltageL3 v (Breaker b) = Breaker (b\<lparr>b_priv_voltageL3 := v\<rparr>)"
| "set_voltageL3 v (Transformer t) = Transformer (t\<lparr>t_priv_voltageL3 := v\<rparr>)"
| "set_voltageL3 v k = k"

fun set_frequency :: "real \<Rightarrow> kind \<Rightarrow> kind" where
  "set_frequency v (Meter m) = Meter (m\<lparr>m_frequency := v\<rparr>)"
| "set_frequency v (Breaker b) = Breaker (b\<lparr>b_priv_frequency := v\<rparr>)"
| "set_frequency v k = k"

fun set_isEnabled :: "int \<Rightarrow> kind \<Rightarrow> kind" where
  "set_isEnabled v (Inverter i) = Inverter (i\<lparr>i_isEnabled := v\<rparr>)"
| "set_isEnabled v k = k"

fun set_irradiance :: "real \<Rightarrow> kind \<Rightarrow> kind" where
  "set_irradiance v (Inverter i) = Inverter (i\<lparr>i_irradiance := v\<rparr>)"
| "set_irradiance v (SimulationController c) = SimulationController (c\<lparr>c_irradiance := v\<rparr>)"
| "set_irradiance v k = k"

definition read_attr :: "(kind \<Rightarrow> error + real) \<Rightarrow> nat \<Rightarrow> world \<Rightarrow> error + real" where
  "read_attr g r w = (case objs w r of None \<Rightarrow> Inl NoObject | Some m \<Rightarrow> g (kind m))"

definition modify_kind :: "(kind \<Rightarrow> kind) \<Rightarrow> nat \<Rightarrow> world \<Rightarrow> outcome" where
  "modify_kind f r w =
     (case objs w r of
        None \<Rightarrow> (Some NoObject, w)
      | Some m \<Rightarrow> (None, w\<lparr>objs := (objs w)(r \<mapsto> m\<lparr>kind := f (kind m)\<rparr>)\<rparr>))"

text \<open>\<open>for d in ds: acc += d.attr\<close>, from the accumulator's value before the loop.\<close>

fun sum_attr :: "(kind \<Rightarrow> error + real) \<Rightarrow> real \<Rightarrow> nat list \<Rightarrow> world \<Rightarrow> error + real" where
  "sum_attr g acc [] w = Inr acc"
| "sum_attr g acc (r # rs) w =
     (case read_attr g r w of Inl e \<Rightarrow> Inl e | Inr v \<Rightarrow> sum_attr g (acc + v) rs w)"


text \<open>Steps of a method body: read an attribute, draw a number, then go on.\<close>

definition with_attr ::
  "(kind \<Rightarrow> error + real) \<Rightarrow> nat \<Rightarrow> (real \<Rightarrow> world \<Rightarrow> outcome) \<Rightarrow> world \<Rightarrow> outcome" where
  "with_attr g r k w = (case read_attr g r w of Inl e \<Rightarrow> (Some e, w) | Inr v \<Rightarrow> k v w)"

definition with_sum ::
  "(kind \<Rightarrow> error + real) \<Rightarrow> real \<Rightarrow> nat list \<Rightarrow> (real \<Rightarrow> world \<Rightarrow> outcome) \<Rightarrow> world \<Rightarrow> outcome"
  where
  "with_sum g acc rs k w = (case sum_attr g acc rs w of Inl e \<Rightarrow> (Some e, w) | Inr v \<Rightarrow> k v w)"

definition with_randint :: "int \<Rightarrow> int \<Rightarrow> (int \<Rightarrow> world \<Rightarrow> outcome) \<Rightarrow> world \<Rightarrow> outcome" where
  "with_randint a b k w = (case randint a b w of (d, w') \<Rightarrow> k d w')"

section \<open>Export to and import from the registers\<close>

definition Inverter_inputs :: "inverter \<Rightarrow> int list" where
  "Inverter_inputs i =
     map py_int
       [Inverter_realPower i, Inverter_reactivePower i,
        i_voltageL1 i * 100, i_voltageL2 i * 100, i_voltageL3 i * 100,
        i_maxRealPower i, i_maxReactivePower i]"

definition Meter_inputs :: "meter \<Rightarrow> int list" where
  "Meter_inputs m =
     map py_int
       [m_voltageL1 m * 100, m_voltageL2 m * 100, m_voltageL3 m * 100,
        m_currentL1 m * 100, m_currentL2 m * 100, m_currentL3 m * 100,
        m_frequency m * 100, m_realPower m, m_reactivePower m, Meter_powerFactor m * 100]"

definition Breaker_inputs :: "breaker \<Rightarrow> int list" where
  "Breaker_inputs b =
     map py_int
       [Breaker_voltageL1 b * 100, Breaker_voltageL2 b * 100, Breaker_voltageL3 b * 100,
        Breaker_realPower b, Breaker_reactivePower b, Breaker_powerFactor b * 100,
        Breaker_frequency b * 100]"

definition Breaker_discretes :: "breaker \<Rightarrow> int list" where
  "Breaker_discretes b = [if isBreakerClosed b then 1 else 0]"

definition Transformer_inputs :: "transformer \<Rightarrow> int list" where
  "Transformer_inputs t =
     map py_int
       [t_priv_realPower t, t_priv_reactivePower t,
        t_priv_voltageL1 t * 100, t_priv_voltageL2 t * 100, t_priv_voltageL3 t * 100,
        Transformer_realPower t, Transformer_reactivePower t,
        Transformer_voltageL1 t * 100, Transformer_voltageL2 t * 100,
        Transformer_voltageL3 t * 100]"

definition SimulationController_inputs :: "controller \<Rightarrow> int list" where
  "SimulationController_inputs c =
     map py_int
       [c_irradianceDeviation c, c_tempDeviation c, c_voltageStepDifference c,
        c_acLossRatio c, c_freqDroop c, c_voltageDeviation c, c_voltageHighLimit c,
        c_voltageLowLimit c]
     @ [c_weatherState c, c_voltageStepCommand c]"

definition writeModbus :: "nat \<Rightarrow> world \<Rightarrow> outcome" where
  "writeModbus self w =
     (case objs w self of
        None \<Rightarrow> (Some NoObject, w)
      | Some m \<Rightarrow>
          (case kind m of
             Inverter i \<Rightarrow> setValues (slaveId m) 4 1 (Inverter_inputs i) w
           | Meter x \<Rightarrow> setValues (slaveId m) 4 1 (Meter_inputs x) w
           | Breaker b \<Rightarrow>
               seq (setValues (slaveId m) 4 1 (Breaker_inputs b))
                 (setValues (slaveId m) 2 1 (Breaker_discretes b)) w
           | Transformer t \<Rightarrow> setValues (slaveId m) 4 1 (Transformer_inputs t) w
           | SimulationController c \<Rightarrow>
               setValues (slaveId m) 3 1 (SimulationController_inputs c) w))"

text \<open>\<open>xs[i]\<close> on the list a register read returned.\<close>

definition item :: "'a list \<Rightarrow> nat \<Rightarrow> error + 'a" where
  "item xs i = (if i < length xs then Inr (xs ! i) else Inl (Py IndexError))"

definition with_values ::
  "nat \<Rightarrow> nat \<Rightarrow> nat \<Rightarrow> nat \<Rightarrow> (int list \<Rightarrow> world \<Rightarrow> outcome) \<Rightarrow> world \<Rightarrow> outcome" where
  "with_values sid fc address count k w =
     (case getValues sid fc address count w of
        (Inl e, w') \<Rightarrow> (Some e, w')
      | (Inr vs, w') \<Rightarrow> k vs w')"

definition with_item :: "int list \<Rightarrow> nat \<Rightarrow> (int \<Rightarrow> world \<Rightarrow> outcome) \<Rightarrow> world \<Rightarrow> outcome" where
  "with_item xs i k w = (case item xs i of Inl e \<Rightarrow> (Some e, w) | Inr v \<Rightarrow> k v w)"

definition Inverter_readModbus :: "nat \<Rightarrow> module \<Rightarrow> inverter \<Rightarrow> world \<Rightarrow> outcome" where
  "Inverter_readModbus self m i =
     with_values (slaveId m) 3 1 2 (\<lambda>holdings.
     with_values (slaveId m) 1 1 1 (\<lambda>coils.
     with_item holdings 0 (\<lambda>h0.
     seq (modify_kind (\<lambda>k. case k of Inverter x \<Rightarrow> Inverter (x\<lparr>i_realPowerSp := real_of_int h0\<rparr>) | _ \<Rightarrow> k) self)
     (with_item holdings 1 (\<lambda>h1.
     seq (modify_kind (\<lambda>k. case k of Inverter x \<Rightarrow> Inverter (x\<lparr>i_reactivePowerSp := real_of_int h1\<rparr>) | _ \<Rightarrow> k) self)
     (with_item coils 0 (\<lambda>c0.
     modify_kind (set_isEnabled c0) self)))))))"

definition Breaker_readModbus :: "nat \<Rightarrow> module \<Rightarrow> breaker \<Rightarrow> world \<Rightarrow> outcome" where
  "Breaker_readModbus self m b =
     with_values (slaveId m) 1 1 1 (\<lambda>vs.
     with_item vs 0 (\<lambda>v0.
     modify_kind (\<lambda>k. case k of Breaker x \<Rightarrow> Breaker (x\<lparr>b_closeCommand := v0\<rparr>) | _ \<Rightarrow> k) self))"

definition Transformer_readModbus :: "nat \<Rightarrow> module \<Rightarrow> transformer \<Rightarrow> world \<Rightarrow> outcome" where
  "Transformer_readModbus self m t =
     with_values (slaveId m) 3 1 1 (\<lambda>vs.
     with_item vs 0 (\<lambda>v0.
     modify_kind (\<lambda>k. case k of Transformer x \<Rightarrow> Transformer (x\<lparr>t_ratio := real_of_int v0\<rparr>) | _ \<Rightarrow> k) self))"

text \<open>
  \<open>SimulationController.readModbus\<close> starts with
  \<open>self.self.irradianceDeviation = values[0]\<close>: the right-hand side is evaluated, then
  the attribute \<open>self\<close> of the controller is looked up. No statement gives a controller
  an attribute of that name, so the lookup \<open>SimulationController_self\<close> raises. The
  assignments after it are the continuation.
\<close>

definition SimulationController_self :: "controller \<Rightarrow> error + controller" where
  "SimulationController_self c = Inl (Py AttributeError)"

definition SimulationController_assign :: "int list \<Rightarrow> int \<Rightarrow> kind \<Rightarrow> kind" where
  "SimulationController_assign vs v k =
     (case k of
        SimulationController c \<Rightarrow>
          SimulationController
            (c\<lparr> c_tempDeviation := real_of_int (vs ! 1),
                c_voltageStepDifference := real_of_int (vs ! 2),
                c_acLossRatio := real_of_int (vs ! 3),
                c_freqDroop := real_of_int (vs ! 4),
                c_voltageDeviation := real_of_int (vs ! 5),
                c_voltageHighLimit := real_of_int (vs ! 6),
                c_voltageLowLimit := real_of_int (vs ! 7),
                c_weatherState := vs ! 8,
                c_voltageStepCommand := v \<rparr>)
      | _ \<Rightarrow> k)"

definition SimulationController_readModbus ::
  "nat \<Rightarrow> module \<Rightarrow> controller \<Rightarrow> world \<Rightarrow> outcome" where
  "SimulationController_readModbus self m c =
     with_values (slaveId m) 3 1 9 (\<lambda>vs.
     with_item vs 0 (\<lambda>v0 w.
       case SimulationController_self c of
         Inl e \<Rightarrow> (Some e, w)
       | Inr target \<Rightarrow>
           (if length vs < 9 then (Some (Py IndexError), w)
            else with_values (slaveId m) 1 1 1 (\<lambda>coils.
                 with_item coils 0 (\<lambda>c0.
                 modify_kind (SimulationController_assign vs c0) self)) w)))"

definition readModbus :: "nat \<Rightarrow> world \<Rightarrow> outcome" where
  "readModbus self w =
     (case objs w self of
        None \<Rightarrow> (Some NoObject, w)
      | Some m \<Rightarrow>
          (case kind m of
             Inverter i \<Rightarrow> Inverter_readModbus self m i w
           | Meter x \<Rightarrow> (Some (Py NotImplementedError), w)
           | Breaker b \<Rightarrow> Breaker_readModbus self m b w
           | Transformer t \<Rightarrow> Transformer_readModbus self m t w
           | SimulationController c \<Rightarrow> SimulationController_readModbus self m c w))"

section \<open>The update methods\<close>

text \<open>\<open>Module.update\<close>, inherited by \<open>Inverter\<close> and \<open>Meter\<close>, only exports.\<close>

definition Module_update :: "nat \<Rightarrow> world \<Rightarrow> outcome" where
  "Module_update self = writeModbus self"

definition Breaker_assign :: "real \<Rightarrow> real \<Rightarrow> real \<Rightarrow> real \<Rightarrow> real \<Rightarrow> kind \<Rightarrow> kind" where
  "Breaker_assign p q v1 v2 v3 k =
     (case k of
        Breaker b \<Rightarrow>
          Breaker (b\<lparr> b_priv_realPower := p, b_priv_reactivePower := q,
                      b_priv_voltageL1 := v1, b_priv_voltageL2 := v2, b_priv_voltageL3 := v3 \<rparr>)
      | _ \<Rightarrow> k)"

text \<open>The end of \<open>Breaker.update\<close>: "Set power and voltages", then export.\<close>

definition Breaker_finish ::
  "nat \<Rightarrow> real \<Rightarrow> real \<Rightarrow> real \<Rightarrow> real \<Rightarrow> real \<Rightarrow> world \<Rightarrow> outcome" where
  "Breaker_finish self p q v1 v2 v3 =
     seq (modify_kind (Breaker_assign p q v1 v2 v3) self) (writeModbus self)"

text \<open>
  The branch \<open>if self.moduleGroup == "mainBreakers"\<close> and what follows it, from the
  values the \<open>Combined...\<close> variables have when it is reached.
\<close>

definition Breaker_main ::
  "nat \<Rightarrow> module \<Rightarrow> breaker \<Rightarrow> real \<Rightarrow> real \<Rightarrow> real \<Rightarrow> real \<Rightarrow> real \<Rightarrow> world \<Rightarrow> outcome" where
  "Breaker_main self m b p q v1 v2 v3 w =
     (if moduleGroup m = ''mainBreakers'' then
        (case b_breakers b of
           None \<Rightarrow> (None, w)
         | Some [] \<Rightarrow> (None, w)
         | Some bs \<Rightarrow>
             with_sum realPower_of p bs (\<lambda>p'.
             with_sum reactivePower_of q bs (\<lambda>q' w'.
               case b_transformers b of
                 None \<Rightarrow> (Some (Py TypeError), w')
               | Some ts \<Rightarrow>
                   with_sum voltageL1_of v1 ts (\<lambda>v1'.
                   with_sum voltageL2_of v2 ts (\<lambda>v2'.
                   with_sum voltageL3_of v3 ts (\<lambda>v3'.
                   Breaker_finish self p' q' v1' v2' v3'))) w')) w)
      else Breaker_finish self p q v1 v2 v3 w)"

definition Breaker_update :: "nat \<Rightarrow> module \<Rightarrow> breaker \<Rightarrow> world \<Rightarrow> outcome" where
  "Breaker_update self m b0 w0 =
     (let b = b0\<lparr> b_breakers := map_of (connections m) ''feederBreakers'',
                  b_inverters := map_of (connections m) ''inverters'',
                  b_transformers := map_of (connections m) ''transformers'' \<rparr>;
          w = w0\<lparr>objs := (objs w0)(self \<mapsto> m\<lparr>kind := Breaker b\<rparr>)\<rparr>
      in
      if moduleGroup m = ''feederBreakers'' then
        (case b_inverters b of
           None \<Rightarrow> (None, w)
         | Some [] \<Rightarrow> (None, w)
         | Some invs \<Rightarrow>
             with_sum realPower_of 0 invs (\<lambda>p.
             with_sum reactivePower_of 0 invs (\<lambda>q.
             with_sum voltageL1_of 0 invs (\<lambda>v1.
             with_sum voltageL2_of 0 invs (\<lambda>v2.
             with_sum voltageL3_of 0 invs (\<lambda>v3.
             seq (for_each (modify_kind (set_isEnabled (b_closeCommand b))) invs)
               (Breaker_main self m b p q
                  (v1 / real (length invs)) (v2 / real (length invs)) (v3 / real (length invs)))))))) w)
      else Breaker_main self m b 0 0 0 0 0 w)"

definition Transformer_assign :: "real \<Rightarrow> real \<Rightarrow> real \<Rightarrow> real \<Rightarrow> real \<Rightarrow> kind \<Rightarrow> kind" where
  "Transformer_assign p q v1 v2 v3 k =
     (case k of
        Transformer t \<Rightarrow>
          Transformer (t\<lparr> t_priv_realPower := p, t_priv_reactivePower := q,
                          t_priv_voltageL1 := v1, t_priv_voltageL2 := v2,
                          t_priv_voltageL3 := v3 \<rparr>)
      | _ \<Rightarrow> k)"

definition Transformer_update :: "nat \<Rightarrow> module \<Rightarrow> transformer \<Rightarrow> world \<Rightarrow> outcome" where
  "Transformer_update self m t0 w0 =
     (let t = t0\<lparr> t_breakers := map_of (connections m) ''feederBreakers'' \<rparr>;
          w = w0\<lparr>objs := (objs w0)(self \<mapsto> m\<lparr>kind := Transformer t\<rparr>)\<rparr>
      in
      case t_breakers t of
        None \<Rightarrow> (None, w)
      | Some [] \<Rightarrow> (None, w)
      | Some bs \<Rightarrow>
          with_sum realPower_of 0 bs (\<lambda>p.
          with_sum reactivePower_of 0 bs (\<lambda>q.
          with_sum voltageL1_of 0 bs (\<lambda>v1.
          with_sum voltageL2_of 0 bs (\<lambda>v2.
          with_sum voltageL3_of 0 bs (\<lambda>v3.
          seq (modify_kind
                 (Transformer_assign p q
                    (v1 / real (length bs)) (v2 / real (length bs)) (v3 / real (length bs)))
                 self)
            (writeModbus self)))))) w)"

subsection \<open>The weather profile of \<open>SimulationController.update\<close>\<close>

text \<open>
  The same perturbation is written out in every weather state: a draw that decides the
  multiplier (\<open>big\<close> when it is 0, \<open>small\<close> otherwise), a draw of the deviation from
  \<open>[lo, hi]\<close>, the addition, and the clamp into \<open>[poaMin, poaMax]\<close>.
\<close>

definition clamp_irradiance :: "real \<Rightarrow> real \<Rightarrow> controller \<Rightarrow> controller" where
  "clamp_irradiance poaMin poaMax c =
     (if c_irradiance c > poaMax then c\<lparr>c_irradiance := poaMax\<rparr>
      else if c_irradiance c < poaMin then c\<lparr>c_irradiance := poaMin\<rparr>
      else c)"

definition poa_step ::
  "real \<Rightarrow> real \<Rightarrow> int \<Rightarrow> int \<Rightarrow> real \<Rightarrow> real \<Rightarrow> controller \<Rightarrow> world \<Rightarrow> controller \<times> world" where
  "poa_step big small lo hi poaMin poaMax c w =
     (case randint 0 30 w of (r, w1) \<Rightarrow>
      case randint lo hi w1 of (d, w2) \<Rightarrow>
        (let poaDeviationMultiplier = (if r = 0 then big else small);
             poaDeviation =
               real_of_int d * c_irradianceDeviation c * poaDeviationMultiplier / 100
         in (clamp_irradiance poaMin poaMax
               (c\<lparr>c_irradiance := c_irradiance c + poaDeviation\<rparr>), w2)))"

text \<open>State 0: \<open>for i in range(0,60)\<close> with the band moving up.\<close>

fun dawn_ramp :: "nat \<Rightarrow> real \<Rightarrow> real \<Rightarrow> controller \<Rightarrow> world \<Rightarrow> controller \<times> world" where
  "dawn_ramp 0 poaMin poaMax c w = (c, w)"
| "dawn_ramp (Suc n) poaMin poaMax c w =
     (case poa_step 10 1 (- 10) 75 poaMin poaMax c w of
        (c', w') \<Rightarrow> dawn_ramp n (poaMin + 75) (poaMax + 80) c' w')"

text \<open>State 4: \<open>for i in range(0,60)\<close> with the band moving down, floored at zero.\<close>

fun dusk_ramp :: "nat \<Rightarrow> real \<Rightarrow> real \<Rightarrow> controller \<Rightarrow> world \<Rightarrow> controller \<times> world" where
  "dusk_ramp 0 poaMin poaMax c w = (c, w)"
| "dusk_ramp (Suc n) poaMin poaMax c w =
     (case poa_step 10 1 (- 10) 75 poaMin poaMax c w of
        (c', w') \<Rightarrow>
          dusk_ramp n
            (if poaMin - 75 < 0 then 0 else poaMin - 75)
            (if poaMax - 80 < 0 then 0 else poaMax - 80) c' w')"

definition weather_dawn :: "controller \<times> world \<Rightarrow> controller \<times> world" where
  "weather_dawn cw =
     (case cw of (c, w) \<Rightarrow>
        if c_weatherState c = 0 then
          (case dawn_ramp 60 0 200 c w of (c', w') \<Rightarrow> (c'\<lparr>c_weatherState := 1\<rparr>, w'))
        else (c, w))"

definition weather_plateau :: "controller \<times> world \<Rightarrow> controller \<times> world" where
  "weather_plateau cw =
     (case cw of (c, w) \<Rightarrow>
        if c_weatherState c = 1 then poa_step 10 1 (- 100) 100 800 950 c w
        else if c_weatherState c = 2 then poa_step 40 10 (- 100) 100 300 950 c w
        else (c, w))"

definition weather_dusk :: "controller \<times> world \<Rightarrow> controller \<times> world" where
  "weather_dusk cw =
     (case cw of (c, w) \<Rightarrow>
        if c_weatherState c = 4 then
          (case dusk_ramp 60 100 500 c w of (c', w') \<Rightarrow> (c'\<lparr>c_weatherState := 5\<rparr>, w'))
        else (c, w))"

definition weather_night :: "controller \<times> world \<Rightarrow> controller \<times> world" where
  "weather_night cw =
     (case cw of (c, w) \<Rightarrow>
        if c_weatherState c = 5 then (c\<lparr>c_irradiance := 0, c_weatherState := 0\<rparr>, w)
        else (c, w))"

text \<open>
  The weather step: the four consecutive statements on \<open>self.weatherState\<close> inside
  \<open>if self.simWeatherEnabled\<close>, before the inverters are updated.
\<close>

definition weather_step :: "controller \<Rightarrow> world \<Rightarrow> controller \<times> world" where
  "weather_step c w = weather_night (weather_dusk (weather_plateau (weather_dawn (c, w))))"

subsection \<open>\<open>SimulationController.update\<close>\<close>

definition index0 :: "(string \<times> nat list) list \<Rightarrow> string \<Rightarrow> error + nat" where
  "index0 conns key =
     (case map_of conns key of
        None \<Rightarrow> Inl (Py KeyError)
      | Some [] \<Rightarrow> Inl (Py IndexError)
      | Some (r # rs) \<Rightarrow> Inr r)"

definition with_self :: "nat \<Rightarrow> (controller \<Rightarrow> world \<Rightarrow> outcome) \<Rightarrow> world \<Rightarrow> outcome" where
  "with_self self k w =
     (case objs w self of
        None \<Rightarrow> (Some NoObject, w)
      | Some m \<Rightarrow>
          (case kind m of
             SimulationController c \<Rightarrow> k c w
           | _ \<Rightarrow> (Some (Py AttributeError), w)))"

definition with_inverters :: "module \<Rightarrow> (nat list \<Rightarrow> world \<Rightarrow> outcome) \<Rightarrow> world \<Rightarrow> outcome" where
  "with_inverters m k w =
     (case map_of (connections m) ''inverters'' of
        None \<Rightarrow> (Some (Py KeyError), w)
      | Some invs \<Rightarrow> k invs w)"

definition set_voltages :: "real \<Rightarrow> nat \<Rightarrow> world \<Rightarrow> outcome" where
  "set_voltages v r =
     seq (modify_kind (set_voltageL1 v) r)
       (seq (modify_kind (set_voltageL2 v) r) (modify_kind (set_voltageL3 v) r))"

definition clear_voltageStepCommand :: "kind \<Rightarrow> kind" where
  "clear_voltageStepCommand k =
     (case k of
        SimulationController c \<Rightarrow> SimulationController (c\<lparr>c_voltageStepCommand := 0\<rparr>)
      | _ \<Rightarrow> k)"

text \<open>"Update meters and simulate grid" down to "Update check meter with voltage".\<close>

definition SimulationController_grid :: "nat \<Rightarrow> module \<Rightarrow> nat \<Rightarrow> nat \<Rightarrow> world \<Rightarrow> outcome" where
  "SimulationController_grid self m mainBreaker checkMeter =
     with_randint (- 100) 100 (\<lambda>freqDeviationMultiplier.
     with_self self (\<lambda>c.
     with_attr frequency_of checkMeter (\<lambda>f.
     seq (modify_kind
            (set_frequency
               (f + c_freqDroop c + (1 / 10 * real_of_int freqDeviationMultiplier / 100)))
            checkMeter)
     (seq (set_voltages (c_nominalGridVoltage c) checkMeter)
     (with_inverters m (\<lambda>invs.
     with_sum reactivePower_of 0 invs (\<lambda>oldReactivePower.
     with_sum reactivePower_of 0 invs (\<lambda>newReactivePower.
     seq (if truthy (c_voltageStepCommand c)
          then modify_kind clear_voltageStepCommand self
          else (\<lambda>w. (None, w)))
     (with_randint (- 100) 100 (\<lambda>voltageDeviationMultiplier.
     with_attr voltageL1_of checkMeter (\<lambda>v.
     with_randint (- 100) 100 (\<lambda>reactiveDeviationMultiplier.
     with_attr reactivePower_of mainBreaker (\<lambda>q.
     with_attr realPower_of mainBreaker (\<lambda>p.
       let deltaReactivePower = newReactivePower - oldReactivePower;
           voltageStep =
             (if truthy (c_voltageStepCommand c) then c_voltageStepDifference c else 0);
           voltageChangeFromPlant =
             deltaReactivePower * (c_acLossRatio c / 100) * c_voltageEffectPerVar c;
           meterVoltage =
             v + voltageChangeFromPlant
               + (real_of_int voltageDeviationMultiplier / 100 * c_voltageMaxDeviation c)
               + voltageStep;
           meterVoltage1 =
             (if meterVoltage > c_voltageHighLimit c then c_voltageHighLimit c
              else meterVoltage);
           meterVoltage2 =
             (if meterVoltage1 < c_voltageLowLimit c then c_voltageLowLimit c
              else meterVoltage1);
           meterReactivePower =
             q + (real_of_int reactiveDeviationMultiplier / 100
                    * c_reactivePowerMaxDeviation c)
       in
       seq (modify_kind (set_realPower p) checkMeter)
         (seq (modify_kind (set_reactivePower \<bar>meterReactivePower\<bar>) checkMeter)
            (set_voltages meterVoltage2 checkMeter))))))))))))))))"

text \<open>
  One pass of "Update the inverters": \<open>inverter.irradiance = self.irradiance +
  random.randint(-25,25)\<close>, floored at zero.
\<close>

definition push_irradiance :: "nat \<Rightarrow> nat \<Rightarrow> world \<Rightarrow> outcome" where
  "push_irradiance self inverter =
     with_self self (\<lambda>c.
     with_randint (- 25) 25 (\<lambda>d.
       let x = c_irradiance c + real_of_int d
       in modify_kind (set_irradiance (if x < 0 then 0 else x)) inverter))"

definition store_weather :: "controller \<Rightarrow> kind \<Rightarrow> kind" where
  "store_weather c' k =
     (case k of
        SimulationController c \<Rightarrow>
          SimulationController
            (c\<lparr>c_irradiance := c_irradiance c', c_weatherState := c_weatherState c'\<rparr>)
      | _ \<Rightarrow> k)"

text \<open>"Run weather sim if enabled".\<close>

definition SimulationController_weather :: "nat \<Rightarrow> module \<Rightarrow> world \<Rightarrow> outcome" where
  "SimulationController_weather self m =
     with_self self (\<lambda>c w.
       if c_simWeatherEnabled c then
         (case weather_step c w of
            (c', w') \<Rightarrow>
              seq (modify_kind (store_weather c') self)
                (with_inverters m (for_each (push_irradiance self))) w')
       else (None, w))"

definition SimulationController_update :: "nat \<Rightarrow> module \<Rightarrow> world \<Rightarrow> outcome" where
  "SimulationController_update self m w =
     (case index0 (connections m) ''breakers'' of
        Inl e \<Rightarrow> (Some e, w)
      | Inr mainBreaker \<Rightarrow>
          (case index0 (connections m) ''meters'' of
             Inl e \<Rightarrow> (Some e, w)
           | Inr checkMeter \<Rightarrow>
               seq (SimulationController_grid self m mainBreaker checkMeter)
                 (seq (SimulationController_weather self m) (writeModbus self)) w))"

section \<open>The simulator (simulator.py)\<close>

text \<open>\<open>device.update()\<close>: the method of the device's class.\<close>

definition update :: "nat \<Rightarrow> world \<Rightarrow> outcome" where
  "update self w =
     (case objs w self of
        None \<Rightarrow> (Some NoObject, w)
      | Some m \<Rightarrow>
          (case kind m of
             Inverter i \<Rightarrow> Module_update self w
           | Meter x \<Rightarrow> Module_update self w
           | Breaker b \<Rightarrow> Breaker_update self m b w
           | Transformer t \<Rightarrow> Transformer_update self m t w
           | SimulationController c \<Rightarrow> SimulationController_update self m w))"

text \<open>
  \<open>updateDevices\<close> visits the groups of \<open>self.devices\<close> in order and every device of a
  group in order; an exception of \<open>device.update()\<close> leaves both loops.
\<close>

definition updateDevices :: "world \<Rightarrow> outcome" where
  "updateDevices w = for_each update (concat (map snd (devices w))) w"

text \<open>
  One pass of the \<open>while True\<close> loop of \<open>start\<close>: the \<open>try\<close> around \<open>updateDevices\<close>
  with \<open>logger.error\<close> in its handler. The callback taken from the queue only writes a
  debug message and is left out. \<open>run n\<close> is the state after \<open>n\<close> passes.
\<close>

definition start_pass :: "world \<Rightarrow> world" where
  "start_pass w =
     (case updateDevices w of
        (None, w') \<Rightarrow> w'
      | (Some e, w') \<Rightarrow> w'\<lparr>errlog := errlog w' @ [e]\<rparr>)"

fun run :: "nat \<Rightarrow> world \<Rightarrow> world" where
  "run 0 w = w"
| "run (Suc n) w = run n (start_pass w)"

subsection \<open>\<open>generateDevices\<close>\<close>

text \<open>
  The topology description \<open>config["devices"]\<close> is a dictionary from group name to the
  list of device entries: an association list with distinct keys, in the dictionary's
  order. \<open>self.devices\<close> is the dictionary \<open>devices\<close> of the state.
\<close>

type_synonym topology = "(string \<times> dev_cfg list) list"

definition Simulator_modules :: "string \<Rightarrow> kind option" where
  "Simulator_modules g =
     (if g = ''inverters'' then Some (Inverter Inverter_init)
      else if g = ''feederBreakers'' then Some (Breaker Breaker_init)
      else if g = ''transformers'' then Some (Transformer Transformer_init)
      else if g = ''mainBreakers'' then Some (Breaker Breaker_init)
      else if g = ''checkMeters'' then Some (Meter Meter_init)
      else None)"

text \<open>
  "Instanstiate the device objects" of one group. The new object is stored at the
  reference equal to its slave id. After this pass \<open>module.connections\<close> still holds the
  names of the entry, which the model keeps in \<open>config\<close>; \<open>connections\<close> is filled by
  the second pass.
\<close>

fun instantiate :: "string \<Rightarrow> dev_cfg list \<Rightarrow> nat \<Rightarrow> world \<Rightarrow> error + nat \<times> world" where
  "instantiate g [] nextSlaveId w = Inr (nextSlaveId, w)"
| "instantiate g (device # rest) nextSlaveId w =
     (case Simulator_modules g of
        None \<Rightarrow> Inl (Py KeyError)
      | Some k \<Rightarrow>
          (case cfg_name device of
             None \<Rightarrow> Inl (Py KeyError)
           | Some nm \<Rightarrow>
               instantiate g rest (nextSlaveId + 1)
                 (w\<lparr> objs := (objs w)(nextSlaveId \<mapsto>
                        \<lparr> slaveId = nextSlaveId, name = nm, moduleGroup = g,
                          connections = [], config = device, kind = k \<rparr>),
                      devices := AList.map_entry g (\<lambda>ds. ds @ [nextSlaveId]) (devices w) \<rparr>)))"

fun instantiate_groups :: "topology \<Rightarrow> nat \<Rightarrow> world \<Rightarrow> error + nat \<times> world" where
  "instantiate_groups [] nextSlaveId w = Inr (nextSlaveId, w)"
| "instantiate_groups ((g, ds) # rest) nextSlaveId w =
     (case instantiate g ds nextSlaveId (w\<lparr>devices := AList.update g [] (devices w)\<rparr>) of
        Inl e \<Rightarrow> Inl e
      | Inr (n, w') \<Rightarrow> instantiate_groups rest n w')"

text \<open>
  The second pass. For every input type of a device, the comprehension keeps the devices
  of that group whose name is in the entry's list.
\<close>

definition named_in :: "world \<Rightarrow> string list \<Rightarrow> nat \<Rightarrow> bool" where
  "named_in w names d = (case objs w d of None \<Rightarrow> False | Some m \<Rightarrow> name m \<in> set names)"

fun resolve :: "world \<Rightarrow> (string \<times> string list) list \<Rightarrow> error + (string \<times> nat list) list" where
  "resolve w [] = Inr []"
| "resolve w ((inputType, names) # rest) =
     (case map_of (devices w) inputType of
        None \<Rightarrow> Inl (Py KeyError)
      | Some ds \<Rightarrow>
          (case resolve w rest of
             Inl e \<Rightarrow> Inl e
           | Inr cs \<Rightarrow> Inr ((inputType, filter (named_in w names) ds) # cs)))"

definition connect :: "nat \<Rightarrow> world \<Rightarrow> outcome" where
  "connect r w =
     (case objs w r of
        None \<Rightarrow> (Some NoObject, w)
      | Some m \<Rightarrow>
          (case cfg_connections (config m) of
             None \<Rightarrow> (None, w)
           | Some [] \<Rightarrow> (None, w)
           | Some cs \<Rightarrow>
               (case resolve w cs of
                  Inl e \<Rightarrow> (Some e, w)
                | Inr conns \<Rightarrow>
                    (None, w\<lparr>objs := (objs w)(r \<mapsto> m\<lparr>connections := conns\<rparr>)\<rparr>))))"

text \<open>"Add in simulator Device".\<close>

definition add_simControl :: "bool \<Rightarrow> nat \<Rightarrow> world \<Rightarrow> error + world" where
  "add_simControl simWeather nextSlaveId w0 =
     (let w = w0\<lparr>devices := AList.update ''simControl'' [] (devices w0)\<rparr> in
      case map_of (devices w) ''inverters'' of
        None \<Rightarrow> Inl (Py KeyError)
      | Some invs \<Rightarrow>
          (case map_of (devices w) ''checkMeters'' of
             None \<Rightarrow> Inl (Py KeyError)
           | Some ms \<Rightarrow>
               (case map_of (devices w) ''mainBreakers'' of
                  None \<Rightarrow> Inl (Py KeyError)
                | Some bs \<Rightarrow>
                    Inr (w\<lparr> objs := (objs w)(nextSlaveId \<mapsto>
                              \<lparr> slaveId = nextSlaveId, name = ''simControl'',
                                moduleGroup = ''Modules'',
                                connections =
                                  [(''inverters'', invs), (''meters'', ms), (''breakers'', bs)],
                                config = \<lparr> cfg_name = None, cfg_connections = None \<rparr>,
                                kind = SimulationController
                                  (SimulationController_init\<lparr>c_simWeatherEnabled := simWeather\<rparr>) \<rparr>),
                            devices := AList.map_entry ''simControl''
                              (\<lambda>ds. ds @ [nextSlaveId]) (devices w) \<rparr>))))"

definition generateDevices :: "topology \<Rightarrow> bool \<Rightarrow> world \<Rightarrow> error + world" where
  "generateDevices cfg simWeather w =
     (case instantiate_groups cfg 1 w of
        Inl e \<Rightarrow> Inl e
      | Inr (n, w1) \<Rightarrow>
          (case for_each connect (concat (map snd (devices w1))) w1 of
             (Some e, w2) \<Rightarrow> Inl e
           | (None, w2) \<Rightarrow> add_simControl simWeather n w2))"

text \<open>
  The constructor \<open>Simulator.__init__\<close> on a parsed configuration: no device yet, the
  heap of blocks holding \<open>baseDataStore\<close>; then \<open>generateDevices\<close> and \<open>buildContext\<close>.
\<close>

definition new_world :: "(nat \<Rightarrow> int) \<Rightarrow> world" where
  "new_world rs =
     \<lparr> objs = Map.empty, devices = [], blocks = base_blocks, slaves = Map.empty,
       rnd = rs, trace = [], errlog = [] \<rparr>"

definition Simulator_init :: "topology \<Rightarrow> bool \<Rightarrow> (nat \<Rightarrow> int) \<Rightarrow> error + world" where
  "Simulator_init cfg simWeather rs =
     (case generateDevices cfg simWeather (new_world rs) of
        Inl e \<Rightarrow> Inl e
      | Inr w \<Rightarrow>
          (case buildContext w of
             (Some e, w') \<Rightarrow> Inl e
           | (None, w') \<Rightarrow> Inr w'))"

section \<open>Topologies used as examples\<close>

text \<open>
  \<open>default_config\<close> is the \<open>devices\<close> part of the configuration that the constructor
  writes when no configuration file is found. \<open>small_plant\<close> is one inverter, one main
  breaker and one check meter with no connections.
\<close>

definition entry :: "string \<Rightarrow> (string \<times> string list) list \<Rightarrow> dev_cfg" where
  "entry n cs = \<lparr> cfg_name = Some n, cfg_connections = Some cs \<rparr>"

definition default_config :: topology where
  "default_config =
     [(''inverters'',
         [\<lparr> cfg_name = Some ''inverter1'', cfg_connections = None \<rparr>,
          \<lparr> cfg_name = Some ''inverter2'', cfg_connections = None \<rparr>,
          \<lparr> cfg_name = Some ''inverter3'', cfg_connections = None \<rparr>,
          \<lparr> cfg_name = Some ''inverter4'', cfg_connections = None \<rparr>]),
      (''feederBreakers'',
         [entry ''feeder1Breaker'' [(''inverters'', [''inverter1'', ''inverter2''])],
          entry ''feeder2Breaker'' [(''inverters'', [''inverter3'', ''inverter4''])]]),
      (''transformers'',
         [entry ''transformer1''
            [(''feederBreakers'', [''feeder1Breaker'', ''feeder2Breaker''])]]),
      (''mainBreakers'',
         [entry ''mainBreaker1''
            [(''feederBreakers'', [''feeder1Breaker'', ''feeder2Breaker'']),
             (''transformers'', [''transformer1''])]]),
      (''checkMeters'', [\<lparr> cfg_name = Some ''checkMeter1'', cfg_connections = None \<rparr>])]"

definition small_plant :: topology where
  "small_plant =
     [(''inverters'', [\<lparr> cfg_name = Some ''inverter1'', cfg_connections = None \<rparr>]),
      (''mainBreakers'', [\<lparr> cfg_name = Some ''mainBreaker1'', cfg_connections = None \<rparr>]),
      (''checkMeters'', [\<lparr> cfg_name = Some ''checkMeter1'', cfg_connections = None \<rparr>])]"


text \<open>
  \<open>plant_two_transformers\<close>: an inverter behind a feeder breaker, two transformers on
  that feeder breaker, and a main breaker connected to the feeder breaker and to both
  transformers.
\<close>

definition plant_two_transformers :: topology where
  "plant_two_transformers =
     [(''inverters'', [\<lparr> cfg_name = Some ''inverter1'', cfg_connections = None \<rparr>]),
      (''feederBreakers'', [entry ''feeder1Breaker'' [(''inverters'', [''inverter1''])]]),
      (''transformers'',
         [entry ''transformer1'' [(''feederBreakers'', [''feeder1Breaker''])],
          entry ''transformer2'' [(''feederBreakers'', [''feeder1Breaker''])]]),
      (''mainBreakers'',
         [entry ''mainBreaker1''
            [(''feederBreakers'', [''feeder1Breaker'']),
             (''transformers'', [''transformer1'', ''transformer2''])]]),
      (''checkMeters'', [\<lparr> cfg_name = Some ''checkMeter1'', cfg_connections = None \<rparr>])]"

text \<open>
  \<open>plant_unknown_name\<close>: the feeder breaker lists the inverter and a name, \<open>ghost\<close>, that
  no inverter has.
\<close>

definition plant_unknown_name :: topology where
  "plant_unknown_name =
     [(''inverters'', [\<lparr> cfg_name = Some ''inverter1'', cfg_connections = None \<rparr>]),
      (''feederBreakers'',
         [entry ''feeder1Breaker'' [(''inverters'', [''inverter1'', ''ghost''])]]),
      (''mainBreakers'', [\<lparr> cfg_name = Some ''mainBreaker1'', cfg_connections = None \<rparr>]),
      (''checkMeters'', [\<lparr> cfg_name = Some ''checkMeter1'', cfg_connections = None \<rparr>])]"

section \<open>Invariants\<close>

text \<open>
  \<open>ctx_ok\<close>: every slave context refers to four consecutive blocks of the heap, and the
  blocks of two addresses do not overlap. \<open>base_ok\<close>: the blocks of \<open>baseDataStore\<close> are
  as created and every allocated bank holds 100 zero cells.
\<close>

definition ctx_ok :: "world \<Rightarrow> bool" where
  "ctx_ok w =
     ((\<forall>a s. slaves w a = Some s \<longrightarrow>
         co s = di s + 1 \<and> hr s = di s + 2 \<and> ir s = di s + 3 \<and> di s + 4 \<le> length (blocks w))
      \<and> (\<forall>a b sa sb. a \<noteq> b \<and> slaves w a = Some sa \<and> slaves w b = Some sb \<longrightarrow>
            di sa + 4 \<le> di sb \<or> di sb + 4 \<le> di sa))"

definition base_ok :: "world \<Rightarrow> bool" where
  "base_ok w = (take 4 (blocks w) = base_blocks
     \<and> (\<forall>a s. slaves w a = Some s \<longrightarrow>
          di s < length (blocks w) \<and> co s < length (blocks w)
          \<and> hr s < length (blocks w) \<and> ir s < length (blocks w)
          \<and> blocks w ! di s = replicate 100 0 \<and> blocks w ! co s = replicate 100 0
          \<and> blocks w ! hr s = replicate 100 0 \<and> blocks w ! ir s = replicate 100 0))"

text \<open>
  \<open>hoare P f Q\<close>: from a state satisfying \<open>P\<close>, the state \<open>f\<close> leaves (returning or
  raising) satisfies \<open>Q\<close>. \<open>only_writes_since t\<close>: the trace extends \<open>t\<close> by register
  writes only. \<open>ctl_of\<close> is the irradiance and the weather flag of a controller object;
  \<open>same_controller self m\<close> says that \<open>self\<close> still is a controller with the connections
  of \<open>m\<close>. An invariant is
  \<open>stable\<close> when the elementary effects of the update methods keep it: drawing a random
  number, writing registers, logging an error, and changing the fields of a device
  while leaving its class and, for a controller, its irradiance and weather flag.
\<close>

definition hoare :: "(world \<Rightarrow> bool) \<Rightarrow> (world \<Rightarrow> outcome) \<Rightarrow> (world \<Rightarrow> bool) \<Rightarrow> bool" where
  "hoare P f Q = (\<forall>w. P w \<longrightarrow> Q (snd (f w)))"

fun is_write :: "event \<Rightarrow> bool" where
  "is_write (SetValues sid fc a vs) = True"
| "is_write (GetValues sid fc a n) = False"


fun ctl_of :: "kind \<Rightarrow> (real \<times> bool) option" where
  "ctl_of (SimulationController c) = Some (c_irradiance c, c_simWeatherEnabled c)"
| "ctl_of k = None"

definition stable :: "(world \<Rightarrow> bool) \<Rightarrow> bool" where
  "stable I =
     ((\<forall>w f. I w \<longrightarrow> I (w\<lparr>rnd := f\<rparr>))
      \<and> (\<forall>w bs ev. I w \<longrightarrow> is_write ev \<longrightarrow> I (w\<lparr>blocks := bs, trace := trace w @ [ev]\<rparr>))
      \<and> (\<forall>w l. I w \<longrightarrow> I (w\<lparr>errlog := l\<rparr>))
      \<and> (\<forall>w r m k'. I w \<longrightarrow> objs w r = Some m \<longrightarrow> ctl_of k' = ctl_of (kind m) \<longrightarrow>
            I (w\<lparr>objs := (objs w)(r \<mapsto> m\<lparr>kind := k'\<rparr>)\<rparr>)))"

definition same_controller :: "nat \<Rightarrow> module \<Rightarrow> world \<Rightarrow> bool" where
  "same_controller self m w =
     (\<exists>m'. objs w self = Some m' \<and> connections m' = connections m \<and> ctl_of (kind m') \<noteq> None)"

text \<open>
  \<open>ctl_inv\<close>: every controller object has its irradiance in \<open>[0, 1000]\<close>, and no device
  of its \<open>inverters\<close> connection is a controller. \<open>controller_at r e\<close>: the object at
  \<open>r\<close> is a controller whose weather flag is \<open>e\<close>.
\<close>

definition ctl_inv :: "world \<Rightarrow> bool" where
  "ctl_inv w =
     (\<forall>r m x e. objs w r = Some m \<longrightarrow> ctl_of (kind m) = Some (x, e) \<longrightarrow>
        0 \<le> x \<and> x \<le> 1000
        \<and> (\<forall>invs i mi. map_of (connections m) ''inverters'' = Some invs \<longrightarrow>
              i \<in> set invs \<longrightarrow> objs w i = Some mi \<longrightarrow> ctl_of (kind mi) = None))"

definition controller_at :: "nat \<Rightarrow> bool \<Rightarrow> world \<Rightarrow> bool" where
  "controller_at r e w = (\<exists>m x. objs w r = Some m \<and> ctl_of (kind m) = Some (x, e))"

text \<open>
  \<open>gen_inv n\<close>, kept by the passes of \<open>generateDevices\<close> before the controller is added:
  every object so far is below the next slave id and is no controller, and so is every
  device of a group.
\<close>

definition gen_inv :: "nat \<Rightarrow> world \<Rightarrow> bool" where
  "gen_inv n w =
     ((\<forall>r m. objs w r = Some m \<longrightarrow> r < n \<and> ctl_of (kind m) = None)
      \<and> (\<forall>g ds d. map_of (devices w) g = Some ds \<longrightarrow> d \<in> set ds \<longrightarrow> d < n))"

text \<open>
  \<open>well_grouped\<close>: what \<open>generateDevices\<close> needs of a topology to succeed. Every
  non-empty group is one of the five of \<open>Simulator.modules\<close>, every entry has a name,
  every input type of an entry is a group of the topology, and the three groups of the
  controller are there. The names listed in the connections play no part.
\<close>

definition well_grouped :: "topology \<Rightarrow> bool" where
  "well_grouped cfg =
     ((\<forall>(g, ds) \<in> set cfg. ds \<noteq> [] \<longrightarrow> Simulator_modules g \<noteq> None)
      \<and> (\<forall>(g, ds) \<in> set cfg. \<forall>d \<in> set ds.
            cfg_name d \<noteq> None
            \<and> (\<forall>cs t ns. cfg_connections d = Some cs \<longrightarrow> (t, ns) \<in> set cs \<longrightarrow>
                  t \<in> fst ` set cfg))
      \<and> ''inverters'' \<in> fst ` set cfg \<and> ''checkMeters'' \<in> fst ` set cfg
      \<and> ''mainBreakers'' \<in> fst ` set cfg)"

text \<open>
  \<open>resolved w cs conns\<close>: \<open>conns\<close> has, for every input type and name list of \<open>cs\<close>, the
  devices of that group whose name is in the list, in the group's order.
\<close>

definition resolved ::
  "world \<Rightarrow> (string \<times> string list) list \<Rightarrow> (string \<times> nat list) list \<Rightarrow> bool" where
  "resolved w cs conns =
     list_all2
       (\<lambda>(t, ns) (t', refs). t' = t
          \<and> (\<exists>ds. map_of (devices w) t = Some ds \<and> refs = filter (named_in w ns) ds))
       cs conns"

text \<open>
  \<open>built K K'\<close>, kept during \<open>generateDevices\<close>: the groups are \<open>K\<close>, each once, the
  devices of the groups are exactly the objects, and every input type of an object's entry is in \<open>K'\<close>.
\<close>

definition built :: "string set \<Rightarrow> string set \<Rightarrow> world \<Rightarrow> bool" where
  "built K K' w =
     (distinct (map fst (devices w)) \<and> fst ` set (devices w) = K
      \<and> (\<forall>g ds d. map_of (devices w) g = Some ds \<longrightarrow> d \<in> set ds \<longrightarrow> objs w d \<noteq> None)
      \<and> (\<forall>r. objs w r \<noteq> None \<longrightarrow> (\<exists>g ds. map_of (devices w) g = Some ds \<and> r \<in> set ds))
      \<and> (\<forall>r m cs t ns. objs w r = Some m \<longrightarrow> cfg_connections (config m) = Some cs \<longrightarrow>
            (t, ns) \<in> set cs \<longrightarrow> t \<in> K'))"

text \<open>
  \<open>wired r\<close>: if the entry of the object at \<open>r\<close> has connections, the object's
  \<open>connections\<close> are their resolution.
\<close>

definition wired :: "nat \<Rightarrow> world \<Rightarrow> bool" where
  "wired r w =
     (\<forall>m cs. objs w r = Some m \<longrightarrow> cfg_connections (config m) = Some cs \<longrightarrow> cs \<noteq> [] \<longrightarrow>
        resolve w cs = Inr (connections m))"

text \<open>
  \<open>made w g r d\<close>: the object at \<open>r\<close> is the device that the first pass of
  \<open>generateDevices\<close> creates for the entry \<open>d\<close> of group \<open>g\<close>: its slave id is its
  reference, it carries the entry, the entry's name, the group and the class of the
  group. \<open>device_of\<close> adds what the second pass gives: no connections for an entry
  without connections, and their resolution otherwise. \<open>unwired\<close>: an object whose
  entry has no connections has none.
\<close>

definition made :: "world \<Rightarrow> string \<Rightarrow> nat \<Rightarrow> dev_cfg \<Rightarrow> bool" where
  "made w g r d =
     (\<exists>m. objs w r = Some m \<and> slaveId m = r \<and> config m = d \<and> cfg_name d = Some (name m)
        \<and> moduleGroup m = g \<and> Simulator_modules g = Some (kind m))"

definition device_of :: "world \<Rightarrow> string \<Rightarrow> nat \<Rightarrow> dev_cfg \<Rightarrow> bool" where
  "device_of w g r d =
     (\<exists>m. objs w r = Some m \<and> slaveId m = r \<and> config m = d \<and> cfg_name d = Some (name m)
        \<and> moduleGroup m = g \<and> Simulator_modules g = Some (kind m)
        \<and> (case cfg_connections d of
             None \<Rightarrow> connections m = []
           | Some cs \<Rightarrow> resolved w cs (connections m)))"

definition unwired :: "world \<Rightarrow> bool" where
  "unwired w =
     (\<forall>r m. objs w r = Some m \<longrightarrow>
        cfg_connections (config m) = None \<or> cfg_connections (config m) = Some [] \<longrightarrow>
        connections m = [])"

text \<open>
  \<open>set_weatherState\<close>: the assignment \<open>self.weatherState = s\<close> on a controller, used to
  put the controller of an example plant into a given weather state.
\<close>

definition set_weatherState :: "int \<Rightarrow> kind \<Rightarrow> kind" where
  "set_weatherState s k =
     (case k of
        SimulationController c \<Rightarrow> SimulationController (c\<lparr>c_weatherState := s\<rparr>)
      | _ \<Rightarrow> k)"

text \<open>
  \<open>triple P f Q E\<close>: from a state satisfying \<open>P\<close>, \<open>f\<close> leaves a state satisfying \<open>Q\<close>
  when it returns and a state satisfying \<open>E\<close> when it raises. \<open>exported m\<close>: the
  register writes of \<open>writeModbus\<close> for the device \<open>m\<close>. \<open>returns_early m\<close>: the
  update of \<open>m\<close> takes one of the \<open>return\<close> statements before the export: a feeder
  breaker without inverters, a main breaker without feeder breakers, a transformer
  without feeder breakers.
\<close>

definition triple ::
  "(world \<Rightarrow> bool) \<Rightarrow> (world \<Rightarrow> outcome) \<Rightarrow> (world \<Rightarrow> bool) \<Rightarrow> (world \<Rightarrow> bool) \<Rightarrow> bool" where
  "triple P f Q E =
     (\<forall>w. P w \<longrightarrow> (fst (f w) = None \<longrightarrow> Q (snd (f w)))
                 \<and> (fst (f w) \<noteq> None \<longrightarrow> E (snd (f w))))"



section \<open>Device readouts\<close>

lemma powerFactorOf_zero: "powerFactorOf p 0 = 1"
  by (simp add: powerFactorOf_def)

lemma powerFactorOf_nonzero:
  "q \<noteq> 0 \<Longrightarrow> powerFactorOf p q = sgn q * p / sqrt (p ^ 2 + q ^ 2)"
proof -
  assume q: "q \<noteq> 0"
  have "\<bar>q\<bar> / q = sgn q"
    using q by (simp add: sgn_real_def abs_real_def)
  then show ?thesis
    using q by (simp add: powerFactorOf_def)
qed

text \<open>
  Claim C6. An enabled inverter reports the lesser of its real-power setpoint and
  \<open>irradiance / 950 * maxRealPower\<close>; a disabled inverter reports zero.
\<close>

theorem Inverter_realPower_clamp:
  "(truthy (i_isEnabled i) \<longrightarrow>
      Inverter_realPower i = min (i_realPowerSp i) (i_irradiance i / 950 * i_maxRealPower i))
   \<and> (\<not> truthy (i_isEnabled i) \<longrightarrow> Inverter_realPower i = 0)"
  by (simp add: Inverter_realPower_def Let_def min_def)

theorem Inverter_realPower_clamp_witness:
  "truthy (i_isEnabled (Inverter_init\<lparr>i_irradiance := 475\<rparr>))
   \<and> Inverter_realPower (Inverter_init\<lparr>i_irradiance := 475\<rparr>) = 1000
   \<and> \<not> truthy (i_isEnabled (Inverter_init\<lparr>i_irradiance := 475, i_isEnabled := 0\<rparr>))
   \<and> Inverter_realPower (Inverter_init\<lparr>i_irradiance := 475, i_isEnabled := 0\<rparr>) = 0"
  using Inverter_realPower_clamp [of "Inverter_init\<lparr>i_irradiance := 475\<rparr>"]
    Inverter_realPower_clamp [of "Inverter_init\<lparr>i_irradiance := 475, i_isEnabled := 0\<rparr>"]
  by (simp add: Inverter_init_def truthy_def)

text \<open>
  Claim C7. For a meter and for a breaker, \<open>powerFactor\<close> is exactly 1 when the
  \<open>reactivePower\<close> readout is zero, whatever \<open>realPower\<close> is, and otherwise it is
  \<open>sign(reactivePower) * realPower / sqrt(realPower\<^sup>2 + reactivePower\<^sup>2)\<close>.
\<close>

theorem powerFactor_meter_breaker:
  "(m_reactivePower m = 0 \<longrightarrow> Meter_powerFactor m = 1)
   \<and> (m_reactivePower m \<noteq> 0 \<longrightarrow>
        Meter_powerFactor m =
          sgn (m_reactivePower m) * m_realPower m
            / sqrt ((m_realPower m) ^ 2 + (m_reactivePower m) ^ 2))
   \<and> (Breaker_reactivePower b = 0 \<longrightarrow> Breaker_powerFactor b = 1)
   \<and> (Breaker_reactivePower b \<noteq> 0 \<longrightarrow>
        Breaker_powerFactor b =
          sgn (Breaker_reactivePower b) * Breaker_realPower b
            / sqrt ((Breaker_realPower b) ^ 2 + (Breaker_reactivePower b) ^ 2))"
  by (simp add: Meter_powerFactor_def Breaker_powerFactor_def powerFactorOf_zero
      powerFactorOf_nonzero)

theorem powerFactor_meter_breaker_witness:
  "m_reactivePower (Meter_init\<lparr>m_realPower := 7\<rparr>) = 0
   \<and> Meter_powerFactor (Meter_init\<lparr>m_realPower := 7\<rparr>) = 1
   \<and> m_reactivePower (Meter_init\<lparr>m_realPower := 4, m_reactivePower := 3\<rparr>) \<noteq> 0
   \<and> Meter_powerFactor (Meter_init\<lparr>m_realPower := 4, m_reactivePower := 3\<rparr>) = 4 / 5
   \<and> Breaker_reactivePower (Breaker_init\<lparr>b_priv_realPower := 7\<rparr>) = 0
   \<and> Breaker_powerFactor (Breaker_init\<lparr>b_priv_realPower := 7\<rparr>) = 1
   \<and> Breaker_reactivePower
        (Breaker_init\<lparr>b_priv_realPower := 4, b_priv_reactivePower := - 3\<rparr>) \<noteq> 0
   \<and> Breaker_powerFactor
        (Breaker_init\<lparr>b_priv_realPower := 4, b_priv_reactivePower := - 3\<rparr>) = - (4 / 5)"
proof -
  have s: "sqrt 25 = 5"
    by (rule real_sqrt_unique) simp_all
  show ?thesis
    using powerFactor_meter_breaker
      [of "Meter_init\<lparr>m_realPower := 7\<rparr>" "Breaker_init\<lparr>b_priv_realPower := 7\<rparr>"]
      powerFactor_meter_breaker
      [of "Meter_init\<lparr>m_realPower := 4, m_reactivePower := 3\<rparr>"
          "Breaker_init\<lparr>b_priv_realPower := 4, b_priv_reactivePower := - 3\<rparr>"]
    by (simp add: Meter_init_def Breaker_init_def Breaker_reactivePower_def
        Breaker_realPower_def isBreakerClosed_def truthy_def s)
qed

text \<open>
  Claim C2, as the code has it. \<open>isBreakerClosed\<close> is the negation of \<open>closeCommand\<close>,
  whose default is 1. The readouts \<open>realPower\<close>, \<open>reactivePower\<close>, \<open>voltageL1\<close>,
  \<open>voltageL2\<close>, \<open>voltageL3\<close> and \<open>frequency\<close> are exactly zero when \<open>isBreakerClosed\<close> is
  true, whatever the backing fields hold; when it is false they are the backing fields.
\<close>

theorem Breaker_readouts_gate:
  "isBreakerClosed b = (\<not> truthy (b_closeCommand b))
   \<and> b_closeCommand Breaker_init = 1
   \<and> (isBreakerClosed b \<longrightarrow>
        Breaker_realPower b = 0 \<and> Breaker_reactivePower b = 0
        \<and> Breaker_voltageL1 b = 0 \<and> Breaker_voltageL2 b = 0 \<and> Breaker_voltageL3 b = 0
        \<and> Breaker_frequency b = 0)
   \<and> (\<not> isBreakerClosed b \<longrightarrow>
        Breaker_realPower b = b_priv_realPower b
        \<and> Breaker_reactivePower b = b_priv_reactivePower b
        \<and> Breaker_voltageL1 b = b_priv_voltageL1 b
        \<and> Breaker_voltageL2 b = b_priv_voltageL2 b
        \<and> Breaker_voltageL3 b = b_priv_voltageL3 b
        \<and> Breaker_frequency b = b_priv_frequency b)"
  by (simp add: isBreakerClosed_def Breaker_init_def Breaker_realPower_def
      Breaker_reactivePower_def Breaker_voltageL1_def Breaker_voltageL2_def
      Breaker_voltageL3_def Breaker_frequency_def)

theorem Breaker_readouts_gate_witness:
  "isBreakerClosed (Breaker_init\<lparr>b_priv_realPower := 2000, b_closeCommand := 0\<rparr>)
   \<and> Breaker_realPower (Breaker_init\<lparr>b_priv_realPower := 2000, b_closeCommand := 0\<rparr>) = 0
   \<and> Breaker_frequency (Breaker_init\<lparr>b_priv_realPower := 2000, b_closeCommand := 0\<rparr>) = 0
   \<and> \<not> isBreakerClosed (Breaker_init\<lparr>b_priv_realPower := 2000\<rparr>)
   \<and> Breaker_realPower (Breaker_init\<lparr>b_priv_realPower := 2000\<rparr>) = 2000"
  using Breaker_readouts_gate [of "Breaker_init\<lparr>b_priv_realPower := 2000, b_closeCommand := 0\<rparr>"]
    Breaker_readouts_gate [of "Breaker_init\<lparr>b_priv_realPower := 2000\<rparr>"]
  by (simp add: Breaker_init_def truthy_def)

text \<open>
  The claim as the specification words it fails: a breaker as constructed has
  \<open>isBreakerClosed\<close> false, and its \<open>frequency\<close> readout is 60, not zero.
\<close>

theorem Breaker_open_readout_counterexample:
  "\<not> isBreakerClosed Breaker_init \<and> Breaker_frequency Breaker_init = 60"
  by (simp add: isBreakerClosed_def Breaker_init_def Breaker_frequency_def truthy_def)

section \<open>Register files\<close>

lemma for_each_preserves:
  assumes "\<And>x w. P w \<Longrightarrow> P (snd (f x w))"
  shows "P w \<Longrightarrow> P (snd (for_each f xs w))"
proof (induction xs arbitrary: w)
  case Nil
  then show ?case by simp
next
  case (Cons x xs)
  have px: "P (snd (f x w))" using Cons.prems assms by blast
  show ?case
  proof (cases "f x w")
    case (Pair e w')
    with px have "P w'" by simp
    with Pair Cons.IH show ?thesis by (cases e) auto
  qed
qed

lemma allocate_slave_cases:
  "snd (allocate_slave r w) = w
   \<or> (\<exists>sid. snd (allocate_slave r w) =
         w\<lparr>blocks := blocks w @ [blocks w ! 0, blocks w ! 1, blocks w ! 2, blocks w ! 3],
           slaves := (slaves w)(sid \<mapsto>
             \<lparr> di = length (blocks w), co = length (blocks w) + 1,
               hr = length (blocks w) + 2, ir = length (blocks w) + 3 \<rparr>)\<rparr>)"
  by (auto simp: allocate_slave_def deepcopy_def baseDataStore_def split: sum.splits)

lemma allocate_slave_ctx_ok:
  assumes "ctx_ok w"
  shows "ctx_ok (snd (allocate_slave r w))"
proof -
  from allocate_slave_cases[of r w] show ?thesis
  proof
    assume "snd (allocate_slave r w) = w"
    with assms show ?thesis by simp
  next
    assume "\<exists>sid. snd (allocate_slave r w) =
         w\<lparr>blocks := blocks w @ [blocks w ! 0, blocks w ! 1, blocks w ! 2, blocks w ! 3],
           slaves := (slaves w)(sid \<mapsto>
             \<lparr> di = length (blocks w), co = length (blocks w) + 1,
               hr = length (blocks w) + 2, ir = length (blocks w) + 3 \<rparr>)\<rparr>"
    then obtain sid where e: "snd (allocate_slave r w) =
         w\<lparr>blocks := blocks w @ [blocks w ! 0, blocks w ! 1, blocks w ! 2, blocks w ! 3],
           slaves := (slaves w)(sid \<mapsto>
             \<lparr> di = length (blocks w), co = length (blocks w) + 1,
               hr = length (blocks w) + 2, ir = length (blocks w) + 3 \<rparr>)\<rparr>" by blast
    have old: "\<And>a s. slaves w a = Some s \<Longrightarrow>
         co s = di s + 1 \<and> hr s = di s + 2 \<and> ir s = di s + 3 \<and> di s + 4 \<le> length (blocks w)"
      using assms unfolding ctx_ok_def by blast
    have dis: "\<And>a b sa sb. a \<noteq> b \<Longrightarrow> slaves w a = Some sa \<Longrightarrow> slaves w b = Some sb \<Longrightarrow>
            di sa + 4 \<le> di sb \<or> di sb + 4 \<le> di sa"
      using assms unfolding ctx_ok_def by blast
    show ?thesis
      unfolding e ctx_ok_def
    proof (intro conjI allI impI)
      fix a s
      assume "slaves (w\<lparr>blocks := blocks w @ [blocks w ! 0, blocks w ! 1, blocks w ! 2, blocks w ! 3],
           slaves := (slaves w)(sid \<mapsto>
             \<lparr> di = length (blocks w), co = length (blocks w) + 1,
               hr = length (blocks w) + 2, ir = length (blocks w) + 3 \<rparr>)\<rparr>) a = Some s"
      then have "(a = sid \<and> s = \<lparr> di = length (blocks w), co = length (blocks w) + 1,
               hr = length (blocks w) + 2, ir = length (blocks w) + 3 \<rparr>) \<or> slaves w a = Some s"
        by (auto split: if_splits)
      then show "co s = di s + 1" "hr s = di s + 2" "ir s = di s + 3"
        "di s + 4 \<le> length (blocks (w\<lparr>blocks := blocks w @ [blocks w ! 0, blocks w ! 1, blocks w ! 2, blocks w ! 3],
           slaves := (slaves w)(sid \<mapsto>
             \<lparr> di = length (blocks w), co = length (blocks w) + 1,
               hr = length (blocks w) + 2, ir = length (blocks w) + 3 \<rparr>)\<rparr>))"
        using old[of a s] by auto
    next
      fix a b sa sb
      assume h: "a \<noteq> b \<and>
        slaves (w\<lparr>blocks := blocks w @ [blocks w ! 0, blocks w ! 1, blocks w ! 2, blocks w ! 3],
           slaves := (slaves w)(sid \<mapsto>
             \<lparr> di = length (blocks w), co = length (blocks w) + 1,
               hr = length (blocks w) + 2, ir = length (blocks w) + 3 \<rparr>)\<rparr>) a = Some sa \<and>
        slaves (w\<lparr>blocks := blocks w @ [blocks w ! 0, blocks w ! 1, blocks w ! 2, blocks w ! 3],
           slaves := (slaves w)(sid \<mapsto>
             \<lparr> di = length (blocks w), co = length (blocks w) + 1,
               hr = length (blocks w) + 2, ir = length (blocks w) + 3 \<rparr>)\<rparr>) b = Some sb"
      then have a: "(a = sid \<and> di sa = length (blocks w)) \<or> (a \<noteq> sid \<and> slaves w a = Some sa)"
        and b: "(b = sid \<and> di sb = length (blocks w)) \<or> (b \<noteq> sid \<and> slaves w b = Some sb)"
        by (auto split: if_splits)
      from h have ne: "a \<noteq> b" by simp
      from a b ne show "di sa + 4 \<le> di sb \<or> di sb + 4 \<le> di sa"
        using old[of a sa] old[of b sb] dis[of a b sa sb] by auto
    qed
  qed
qed

lemma buildContext_ctx_ok: "ctx_ok (snd (buildContext w))"
  unfolding buildContext_def
proof (rule for_each_preserves[where P = ctx_ok])
  show "ctx_ok (w\<lparr>slaves := Map.empty\<rparr>)" by (simp add: ctx_ok_def)
qed (rule allocate_slave_ctx_ok)

lemma decode_cases:
  "decode fc s = Some r \<Longrightarrow> r = di s \<or> r = co s \<or> r = hr s \<or> r = ir s"
  by (auto simp: decode_def split: if_splits)

lemma ctx_ok_disjoint:
  assumes "ctx_ok w" "a \<noteq> b" "slaves w a = Some sa" "slaves w b = Some sb"
    "decode fc sa = Some r" "decode fc' sb = Some r'"
  shows "r \<noteq> r'"
proof -
  have a: "co sa = di sa + 1 \<and> hr sa = di sa + 2 \<and> ir sa = di sa + 3"
    and b: "co sb = di sb + 1 \<and> hr sb = di sb + 2 \<and> ir sb = di sb + 3"
    using assms unfolding ctx_ok_def by blast+
  have d: "di sa + 4 \<le> di sb \<or> di sb + 4 \<le> di sa"
    using assms unfolding ctx_ok_def by blast
  from decode_cases[OF assms(5)] decode_cases[OF assms(6)] a b d show ?thesis
    by auto
qed

lemma write_read_frame:
  assumes "ctx_ok w" "a \<noteq> b"
  shows "fst (getValues b fc' addr' n (snd (setValues a fc addr vs w))) = fst (getValues b fc' addr' n w)"
proof (cases "slaves w a")
  case None
  then show ?thesis by (simp add: setValues_def)
next
  case (Some sa)
  note sa = this
  show ?thesis
  proof (cases "decode fc sa")
    case None
    with sa show ?thesis by (simp add: setValues_def)
  next
    case (Some r)
    note r = this
    show ?thesis
    proof (cases "slaves w b")
      case None
      with sa r show ?thesis by (simp add: setValues_def getValues_def)
    next
      case (Some sb)
      note sb = this
      show ?thesis
      proof (cases "decode fc' sb")
        case None
        with sa r sb show ?thesis by (simp add: setValues_def getValues_def)
      next
        case (Some r')
        have "r \<noteq> r'" using ctx_ok_disjoint[OF assms sa sb r Some] .
        with sa r sb Some show ?thesis by (simp add: setValues_def getValues_def)
      qed
    qed
  qed
qed

lemma base_length: "take 4 bs = base_blocks \<Longrightarrow> 4 \<le> length bs"
proof -
  assume "take 4 bs = base_blocks"
  then have "length (take 4 bs) = 4" by (simp add: base_blocks_def)
  then show ?thesis by simp
qed

lemma base_nth:
  assumes "take 4 bs = base_blocks" "i < 4"
  shows "bs ! i = replicate 100 0"
proof -
  have "bs ! i = take 4 bs ! i" using assms(2) by simp
  also have "\<dots> = replicate 100 0"
    using assms(2) unfolding assms(1) base_blocks_def
    by (cases i rule: less_Suc_eq[THEN iffD1, elim_format]) (auto simp: nth_Cons' numeral_eq_Suc)
  finally show "bs ! i = replicate 100 0" .
qed

lemma allocate_slave_base_ok:
  assumes "base_ok w"
  shows "base_ok (snd (allocate_slave r w))"
proof -
  have t: "take 4 (blocks w) = base_blocks" using assms by (simp add: base_ok_def)
  have n: "blocks w ! 0 = replicate 100 0" "blocks w ! 1 = replicate 100 0"
    "blocks w ! 2 = replicate 100 0" "blocks w ! 3 = replicate 100 0"
    using base_nth[OF t] by simp_all
  have l: "4 \<le> length (blocks w)" using base_length[OF t] .
  from allocate_slave_cases[of r w] show ?thesis
  proof
    assume "snd (allocate_slave r w) = w"
    with assms show ?thesis by simp
  next
    assume "\<exists>sid. snd (allocate_slave r w) =
         w\<lparr>blocks := blocks w @ [blocks w ! 0, blocks w ! 1, blocks w ! 2, blocks w ! 3],
           slaves := (slaves w)(sid \<mapsto>
             \<lparr> di = length (blocks w), co = length (blocks w) + 1,
               hr = length (blocks w) + 2, ir = length (blocks w) + 3 \<rparr>)\<rparr>"
    then obtain sid where e: "snd (allocate_slave r w) =
         w\<lparr>blocks := blocks w @ [blocks w ! 0, blocks w ! 1, blocks w ! 2, blocks w ! 3],
           slaves := (slaves w)(sid \<mapsto>
             \<lparr> di = length (blocks w), co = length (blocks w) + 1,
               hr = length (blocks w) + 2, ir = length (blocks w) + 3 \<rparr>)\<rparr>" by blast
    have old: "\<And>a s. slaves w a = Some s \<Longrightarrow>
          di s < length (blocks w) \<and> co s < length (blocks w)
          \<and> hr s < length (blocks w) \<and> ir s < length (blocks w)
          \<and> blocks w ! di s = replicate 100 0 \<and> blocks w ! co s = replicate 100 0
          \<and> blocks w ! hr s = replicate 100 0 \<and> blocks w ! ir s = replicate 100 0"
      using assms unfolding base_ok_def by blast
    show ?thesis
      unfolding e base_ok_def
    proof (intro conjI allI impI)
      show "take 4 (blocks (w\<lparr>blocks := blocks w @ [blocks w ! 0, blocks w ! 1, blocks w ! 2, blocks w ! 3],
           slaves := (slaves w)(sid \<mapsto>
             \<lparr> di = length (blocks w), co = length (blocks w) + 1,
               hr = length (blocks w) + 2, ir = length (blocks w) + 3 \<rparr>)\<rparr>)) = base_blocks"
        using t l by simp
    next
      fix a s
      assume "slaves (w\<lparr>blocks := blocks w @ [blocks w ! 0, blocks w ! 1, blocks w ! 2, blocks w ! 3],
           slaves := (slaves w)(sid \<mapsto>
             \<lparr> di = length (blocks w), co = length (blocks w) + 1,
               hr = length (blocks w) + 2, ir = length (blocks w) + 3 \<rparr>)\<rparr>) a = Some s"
      then have c: "s = \<lparr> di = length (blocks w), co = length (blocks w) + 1,
               hr = length (blocks w) + 2, ir = length (blocks w) + 3 \<rparr> \<or> slaves w a = Some s"
        by (auto split: if_splits)
      let ?w = "w\<lparr>blocks := blocks w @ [blocks w ! 0, blocks w ! 1, blocks w ! 2, blocks w ! 3],
           slaves := (slaves w)(sid \<mapsto>
             \<lparr> di = length (blocks w), co = length (blocks w) + 1,
               hr = length (blocks w) + 2, ir = length (blocks w) + 3 \<rparr>)\<rparr>"
      from c show "di s < length (blocks ?w)" "co s < length (blocks ?w)"
        "hr s < length (blocks ?w)" "ir s < length (blocks ?w)"
        "blocks ?w ! di s = replicate 100 0" "blocks ?w ! co s = replicate 100 0"
        "blocks ?w ! hr s = replicate 100 0" "blocks ?w ! ir s = replicate 100 0"
        using old[of a s] n by (auto simp: nth_append)
    qed
  qed
qed

lemma buildContext_base_ok:
  assumes "take 4 (blocks w) = base_blocks"
  shows "base_ok (snd (buildContext w))"
  unfolding buildContext_def
proof (rule for_each_preserves[where P = base_ok])
  show "base_ok (w\<lparr>slaves := Map.empty\<rparr>)" using assms by (simp add: base_ok_def)
qed (rule allocate_slave_base_ok)


lemmas build_defs = generateDevices_def new_world_def base_blocks_def
  Simulator_modules_def connect_def add_simControl_def
  Inverter_init_def Breaker_init_def Transformer_init_def Meter_init_def
  SimulationController_init_def named_in_def

lemmas context_defs = buildContext_def allocate_slave_def slaveId_of_def deepcopy_def
  baseDataStore_def setValues_def getValues_def decode_def slice_assign_def

lemma allocate_slave_objs: "objs (snd (allocate_slave r w)) = objs w"
  using allocate_slave_cases[of r w] by auto

lemma allocate_slave_dom:
  "slaves w a \<noteq> None \<Longrightarrow> slaves (snd (allocate_slave r w)) a \<noteq> None"
  using allocate_slave_cases[of r w] by auto

lemma allocate_slave_new:
  "objs w r = Some m \<Longrightarrow> fst (allocate_slave r w) = None \<and> slaves (snd (allocate_slave r w)) (slaveId m) \<noteq> None"
  by (auto simp: allocate_slave_def slaveId_of_def deepcopy_def)

lemma for_each_allocate_dom:
  "slaves w a \<noteq> None \<Longrightarrow> slaves (snd (for_each allocate_slave xs w)) a \<noteq> None"
  by (rule for_each_preserves[where P = "\<lambda>w. slaves w a \<noteq> None"]) (rule allocate_slave_dom)

lemma for_each_allocate_objs: "objs (snd (for_each allocate_slave xs w)) = objs w"
  by (rule for_each_preserves[where P = "\<lambda>w'. objs w' = objs w"]) (simp_all add: allocate_slave_objs)

lemma for_each_allocate_all:
  "fst (for_each allocate_slave xs w) = None \<Longrightarrow> r \<in> set xs \<Longrightarrow> objs w r = Some m \<Longrightarrow>
   slaves (snd (for_each allocate_slave xs w)) (slaveId m) \<noteq> None"
proof (induction xs arbitrary: w)
  case Nil
  then show ?case by simp
next
  case (Cons x xs)
  obtain e w' where a: "allocate_slave x w = (e, w')" by (cases "allocate_slave x w")
  have o: "objs w' = objs w" using allocate_slave_objs[of x w] a by simp
  from Cons.prems(1) a have e: "e = None" by (cases e) auto
  show ?case
  proof (cases "x = r")
    case True
    from allocate_slave_new[OF Cons.prems(3)] a True
    have s: "slaves w' (slaveId m) \<noteq> None" by auto
    from for_each_allocate_dom[OF s, of xs] a e show ?thesis by simp
  next
    case False
    with Cons.prems have r: "r \<in> set xs" by simp
    from Cons.prems(1) a e have "fst (for_each allocate_slave xs w') = None" by simp
    from Cons.IH[OF this r] o Cons.prems(3) a e show ?thesis by simp
  qed
qed

text \<open>
  Claim C10. \<open>buildContext\<close> gives every device address a register file of its own, a
  deep copy of \<open>baseDataStore\<close> with four banks of 100 cells; a write to any bank of
  one address leaves every bank of any other address as it was.
\<close>

theorem buildContext_register_files:
  "(take 4 (blocks w) = base_blocks \<longrightarrow> slaves (snd (buildContext w)) a = Some s \<longrightarrow>
      blocks (snd (buildContext w)) ! di s = replicate 100 0
      \<and> blocks (snd (buildContext w)) ! co s = replicate 100 0
      \<and> blocks (snd (buildContext w)) ! hr s = replicate 100 0
      \<and> blocks (snd (buildContext w)) ! ir s = replicate 100 0)
   \<and> (fst (buildContext w) = None \<longrightarrow> r \<in> set (concat (map snd (devices w))) \<longrightarrow>
        objs w r = Some m \<longrightarrow> slaves (snd (buildContext w)) (slaveId m) \<noteq> None)
   \<and> (a \<noteq> b \<longrightarrow>
        fst (getValues b fc' address' n
               (snd (setValues a fc address vs (snd (buildContext w)))))
        = fst (getValues b fc' address' n (snd (buildContext w))))"
proof (intro conjI impI)
  assume t: "take 4 (blocks w) = base_blocks" and s: "slaves (snd (buildContext w)) a = Some s"
  from buildContext_base_ok[OF t] s
  show "blocks (snd (buildContext w)) ! di s = replicate 100 0"
    "blocks (snd (buildContext w)) ! co s = replicate 100 0"
    "blocks (snd (buildContext w)) ! hr s = replicate 100 0"
    "blocks (snd (buildContext w)) ! ir s = replicate 100 0"
    unfolding base_ok_def by blast+
next
  assume "fst (buildContext w) = None" "r \<in> set (concat (map snd (devices w)))"
    "objs w r = Some m"
  then show "slaves (snd (buildContext w)) (slaveId m) \<noteq> None"
    unfolding buildContext_def using for_each_allocate_all[of _ "w\<lparr>slaves := Map.empty\<rparr>" r m]
    by simp
next
  assume "a \<noteq> b"
  with buildContext_ctx_ok[of w]
  show "fst (getValues b fc' address' n
               (snd (setValues a fc address vs (snd (buildContext w)))))
        = fst (getValues b fc' address' n (snd (buildContext w)))"
    by (rule write_read_frame)
qed

theorem buildContext_register_files_witness:
  "(case generateDevices small_plant False (new_world (\<lambda>n. 0)) of
      Inl e \<Rightarrow> False
    | Inr w \<Rightarrow>
        take 4 (blocks w) = base_blocks
        \<and> fst (buildContext w) = None
        \<and> 1 \<in> set (concat (map snd (devices w)))
        \<and> map_option slaveId (objs w 1) = Some 1
        \<and> slaves (snd (buildContext w)) 1 = Some \<lparr> di = 4, co = 5, hr = 6, ir = 7 \<rparr>
        \<and> blocks (snd (buildContext w)) ! 6 = replicate 100 0
        \<and> fst (getValues 2 3 1 2 (snd (setValues 1 3 1 [7, 8] (snd (buildContext w)))))
          = fst (getValues 2 3 1 2 (snd (buildContext w)))
        \<and> fst (getValues 2 3 1 2 (snd (buildContext w))) = Inr [0, 0]
        \<and> fst (getValues 1 3 1 2 (snd (setValues 1 3 1 [7, 8] (snd (buildContext w)))))
          = Inr [7, 8])"
proof -
  define w where "w = (case generateDevices small_plant False (new_world (\<lambda>n. 0)) of
      Inr w \<Rightarrow> w | Inl e \<Rightarrow> new_world (\<lambda>n. 0))"
  have g: "generateDevices small_plant False (new_world (\<lambda>n. 0)) = Inr w"
    unfolding w_def by (simp add: build_defs small_plant_def)
  have o: "objs w 1 = Some \<lparr> slaveId = 1, name = ''inverter1'', moduleGroup = ''inverters'',
      connections = [], config = \<lparr> cfg_name = Some ''inverter1'', cfg_connections = None \<rparr>,
      kind = Inverter Inverter_init \<rparr>"
    unfolding w_def by (simp add: build_defs small_plant_def)
  have d: "devices w = [(''inverters'', [1]), (''mainBreakers'', [2]), (''checkMeters'', [3]),
      (''simControl'', [4])]"
    unfolding w_def by (simp add: build_defs small_plant_def)
  have b: "take 4 (blocks w) = base_blocks"
    unfolding w_def by (simp add: build_defs small_plant_def)
  have f: "fst (buildContext w) = None"
    unfolding w_def by (simp add: build_defs small_plant_def context_defs)
  have s: "slaves (snd (buildContext w)) 1 = Some \<lparr> di = 4, co = 5, hr = 6, ir = 7 \<rparr>"
    unfolding w_def by (simp add: build_defs small_plant_def context_defs)
  have r: "fst (getValues 2 3 1 2 (snd (buildContext w))) = Inr [0, 0]"
    unfolding w_def by (simp add: build_defs small_plant_def context_defs numeral_2_eq_2)
  have r': "fst (getValues 1 3 1 2 (snd (setValues 1 3 1 [7, 8] (snd (buildContext w)))))
          = Inr [7, 8]"
    unfolding w_def by (simp add: build_defs small_plant_def context_defs)
  from buildContext_register_files
    [of w 1 "\<lparr> di = 4, co = 5, hr = 6, ir = 7 \<rparr>" 1 "the (objs w 1)" 2 3 1 2 3 1 "[7, 8]"]
  show ?thesis
    unfolding g using o d b f s r r' by simp
qed

section \<open>Command import of the simulation controller\<close>

lemma getValues_objs: "objs (snd (getValues sid fc a n w)) = objs w"
  by (simp add: getValues_def split: option.splits)

lemma setValues_objs: "objs (snd (setValues sid fc a vs w)) = objs w"
  by (simp add: setValues_def split: option.splits)

lemma writeModbus_objs: "objs (snd (writeModbus self w)) = objs w"
  by (auto simp: writeModbus_def seq_def setValues_def
      split: option.splits kind.splits prod.splits)

text \<open>
  Claim C9. On a simulation controller \<open>readModbus\<close> never returns: it raises, and no
  field of any device is changed. Whenever the controller's register file exists and
  its holding bank has at least two cells, the exception is the \<open>AttributeError\<close> of
  \<open>self.self\<close>, whatever the registers hold.
\<close>

theorem SimulationController_readModbus_raises:
  "(objs w self = Some m \<longrightarrow> kind m = SimulationController c \<longrightarrow>
      fst (readModbus self w) \<noteq> None \<and> objs (snd (readModbus self w)) = objs w)
   \<and> (objs w self = Some m \<longrightarrow> kind m = SimulationController c \<longrightarrow>
        slaves w (slaveId m) = Some s \<longrightarrow> 1 < length (blocks w ! hr s) \<longrightarrow>
        fst (readModbus self w) = Some (Py AttributeError))"
proof -
  have a: "fst (readModbus self w) \<noteq> None \<and> objs (snd (readModbus self w)) = objs w"
    if o: "objs w self = Some m" and k: "kind m = SimulationController c"
  proof -
    have r: "readModbus self w = SimulationController_readModbus self m c w"
      using o k by (simp add: readModbus_def)
    show ?thesis
      unfolding r SimulationController_readModbus_def with_values_def with_item_def
        SimulationController_self_def
      by (auto simp: getValues_def split: option.splits sum.splits prod.splits)
  qed
  have b: "fst (readModbus self w) = Some (Py AttributeError)"
    if o: "objs w self = Some m" and k: "kind m = SimulationController c"
      and s: "slaves w (slaveId m) = Some s" and l: "1 < length (blocks w ! hr s)"
  proof -
    have r: "readModbus self w = SimulationController_readModbus self m c w"
      using o k by (simp add: readModbus_def)
    show ?thesis
      unfolding r SimulationController_readModbus_def with_values_def with_item_def
        SimulationController_self_def
      using s l by (simp add: getValues_def decode_def item_def)
  qed
  from a b show ?thesis by blast
qed

theorem SimulationController_readModbus_raises_witness:
  "(case Simulator_init small_plant False (\<lambda>n. 0) of
      Inl e \<Rightarrow> False
    | Inr w \<Rightarrow>
        map_option kind (objs w 4) = Some (SimulationController SimulationController_init)
        \<and> map_option slaveId (objs w 4) = Some 4
        \<and> slaves w 4 = Some \<lparr> di = 16, co = 17, hr = 18, ir = 19 \<rparr>
        \<and> length (blocks w ! 18) = 100
        \<and> fst (readModbus 4 w) = Some (Py AttributeError)
        \<and> objs (snd (readModbus 4 w)) = objs w)"
proof -
  define w where "w = (case Simulator_init small_plant False (\<lambda>n. 0) of
      Inr w \<Rightarrow> w | Inl e \<Rightarrow> new_world (\<lambda>n. 0))"
  have g: "Simulator_init small_plant False (\<lambda>n. 0) = Inr w"
    unfolding w_def by (simp add: Simulator_init_def build_defs small_plant_def context_defs)
  have o: "objs w 4 = Some \<lparr> slaveId = 4, name = ''simControl'', moduleGroup = ''Modules'',
      connections = [(''inverters'', [1]), (''meters'', [3]), (''breakers'', [2])],
      config = \<lparr> cfg_name = None, cfg_connections = None \<rparr>,
      kind = SimulationController SimulationController_init \<rparr>"
    unfolding w_def by (simp add: Simulator_init_def build_defs small_plant_def context_defs)
  have s: "slaves w 4 = Some \<lparr> di = 16, co = 17, hr = 18, ir = 19 \<rparr>"
    unfolding w_def by (simp add: Simulator_init_def build_defs small_plant_def context_defs)
  have l: "length (blocks w ! 18) = 100"
    unfolding w_def by (simp add: Simulator_init_def build_defs small_plant_def context_defs)
  from SimulationController_readModbus_raises
    [of w 4 "the (objs w 4)" SimulationController_init "\<lparr> di = 16, co = 17, hr = 18, ir = 19 \<rparr>"]
  show ?thesis
    unfolding g using o s l by simp
qed

section \<open>Invariants of the update methods\<close>

lemma hoareI: "(\<And>w. P w \<Longrightarrow> Q (snd (f w))) \<Longrightarrow> hoare P f Q"
  by (simp add: hoare_def)

lemma hoareD: "hoare P f Q \<Longrightarrow> P w \<Longrightarrow> Q (snd (f w))"
  by (simp add: hoare_def)

lemma hoare_return: "(\<And>w. P w \<Longrightarrow> Q w) \<Longrightarrow> hoare P (\<lambda>w. (e, w)) Q"
  by (simp add: hoare_def)

lemma hoare_weaken: "hoare P' f Q \<Longrightarrow> (\<And>w. P w \<Longrightarrow> P' w) \<Longrightarrow> hoare P f Q"
  by (simp add: hoare_def)

lemma hoare_seq:
  assumes "hoare P f R" "hoare R g Q" "\<And>w. R w \<Longrightarrow> Q w"
  shows "hoare P (seq f g) Q"
proof (rule hoareI)
  fix w assume "P w"
  with assms(1) have r: "R (snd (f w))" by (rule hoareD)
  obtain e w' where f: "f w = (e, w')" by (cases "f w")
  with r have r': "R w'" by simp
  show "Q (snd (seq f g w))"
  proof (cases e)
    case None
    with f hoareD[OF assms(2) r'] show ?thesis by (simp add: seq_def)
  next
    case (Some a)
    with f assms(3)[OF r'] show ?thesis by (simp add: seq_def)
  qed
qed

lemma hoare_for_each:
  assumes "\<And>x. x \<in> set xs \<Longrightarrow> hoare I (f x) I"
  shows "hoare I (for_each f xs) I"
  using assms
proof (induction xs)
  case Nil
  show ?case by (simp add: hoare_def)
next
  case (Cons x xs)
  have t: "hoare I (for_each f xs) I" using Cons by simp
  have h: "hoare I (f x) I" using Cons.prems by simp
  show ?case
  proof (rule hoareI)
    fix w assume "I w"
    with h have r: "I (snd (f x w))" by (rule hoareD)
    obtain e w' where f: "f x w = (e, w')" by (cases "f x w")
    with r have r': "I w'" by simp
    show "I (snd (for_each f (x # xs) w))"
      using f r' hoareD[OF t r'] by (cases e) auto
  qed
qed

lemma hoare_with_attr:
  assumes "\<And>v. hoare P (k v) Q" "\<And>w. P w \<Longrightarrow> Q w"
  shows "hoare P (with_attr g r k) Q"
  using assms by (auto simp: hoare_def with_attr_def split: sum.splits)

lemma hoare_with_sum:
  assumes "\<And>v. hoare P (k v) Q" "\<And>w. P w \<Longrightarrow> Q w"
  shows "hoare P (with_sum g acc rs k) Q"
  using assms by (auto simp: hoare_def with_sum_def split: sum.splits)

lemma hoare_with_randint:
  assumes "\<And>d. hoare P' (k d) Q" "\<And>w f. P w \<Longrightarrow> P' (w\<lparr>rnd := f\<rparr>)"
  shows "hoare P (with_randint a b k) Q"
  using assms by (auto simp: hoare_def with_randint_def randint_def)

lemma hoare_with_self:
  assumes "\<And>c. hoare (\<lambda>w. P w \<and> (\<exists>m. objs w self = Some m \<and> kind m = SimulationController c)) (k c) Q"
    "\<And>w. P w \<Longrightarrow> Q w"
  shows "hoare P (with_self self k) Q"
  using assms by (auto simp: hoare_def with_self_def split: option.splits kind.splits)

lemma hoare_with_inverters:
  assumes "\<And>invs. map_of (connections m) ''inverters'' = Some invs \<Longrightarrow> hoare P (k invs) Q"
    "\<And>w. P w \<Longrightarrow> Q w"
  shows "hoare P (with_inverters m k) Q"
  using assms by (auto simp: hoare_def with_inverters_def split: option.splits)

lemma hoare_modify_kind:
  assumes "\<And>w m. P w \<Longrightarrow> objs w r = Some m \<Longrightarrow> Q (w\<lparr>objs := (objs w)(r \<mapsto> m\<lparr>kind := f (kind m)\<rparr>)\<rparr>)"
    "\<And>w. P w \<Longrightarrow> Q w"
  shows "hoare P (modify_kind f r) Q"
  using assms by (auto simp: hoare_def modify_kind_def split: option.splits)

lemma hoare_setValues:
  assumes "\<And>w bs. P w \<Longrightarrow> Q (w\<lparr>blocks := bs, trace := trace w @ [SetValues sid fc a vs]\<rparr>)"
    "\<And>w. P w \<Longrightarrow> Q w"
  shows "hoare P (setValues sid fc a vs) Q"
  using assms by (auto simp: hoare_def setValues_def split: option.splits)

lemma hoare_writeModbus:
  assumes "\<And>w bs ev. I w \<Longrightarrow> is_write ev \<Longrightarrow> I (w\<lparr>blocks := bs, trace := trace w @ [ev]\<rparr>)"
  shows "hoare I (writeModbus self) I"
proof -
  have s: "hoare I (setValues sid fc a vs) I" for sid fc a vs
    by (rule hoare_setValues) (simp_all add: assms)
  show ?thesis
  proof (rule hoareI)
    fix w assume i: "I w"
    show "I (snd (writeModbus self w))"
    proof (cases "objs w self")
      case None
      with i show ?thesis by (simp add: writeModbus_def)
    next
      case (Some m)
      show ?thesis
      proof (cases "kind m")
        case (Breaker b)
        have "hoare I (seq (setValues (slaveId m) 4 1 (Breaker_inputs b))
                 (setValues (slaveId m) 2 1 (Breaker_discretes b))) I"
          by (rule hoare_seq[OF s s])
        from hoareD[OF this i] Some Breaker show ?thesis by (simp add: writeModbus_def)
      qed (use Some hoareD[OF s i] in \<open>simp_all add: writeModbus_def\<close>)
    qed
  qed
qed


lemma stable_rnd: "stable I \<Longrightarrow> I w \<Longrightarrow> I (w\<lparr>rnd := f\<rparr>)"
  unfolding stable_def by blast

lemma stable_errlog: "stable I \<Longrightarrow> I w \<Longrightarrow> I (w\<lparr>errlog := l\<rparr>)"
  unfolding stable_def by blast

lemma stable_write:
  "stable I \<Longrightarrow> I w \<Longrightarrow> is_write ev \<Longrightarrow> I (w\<lparr>blocks := bs, trace := trace w @ [ev]\<rparr>)"
  unfolding stable_def by blast

lemma stable_kind:
  "stable I \<Longrightarrow> I w \<Longrightarrow> objs w r = Some m \<Longrightarrow> ctl_of k' = ctl_of (kind m) \<Longrightarrow>
   I (w\<lparr>objs := (objs w)(r \<mapsto> m\<lparr>kind := k'\<rparr>)\<rparr>)"
  unfolding stable_def by blast

lemma stable_same_controller:
  assumes "stable I"
  shows "stable (\<lambda>w. I w \<and> same_controller self m w)"
  unfolding stable_def
proof (intro conjI allI impI)
  fix w r m' k'
  assume a: "I w \<and> same_controller self m w" and o: "objs w r = Some m'"
    and c: "ctl_of k' = ctl_of (kind m')"
  from a o c show "I (w\<lparr>objs := (objs w)(r \<mapsto> m'\<lparr>kind := k'\<rparr>)\<rparr>)"
    using stable_kind[OF assms] by blast
  from a o c show "same_controller self m (w\<lparr>objs := (objs w)(r \<mapsto> m'\<lparr>kind := k'\<rparr>)\<rparr>)"
    by (auto simp: same_controller_def)
qed (auto simp: same_controller_def stable_rnd[OF assms] stable_write[OF assms]
    stable_errlog[OF assms])

lemma ctl_of_setters [simp]:
  "ctl_of (set_realPower v k) = ctl_of k"
  "ctl_of (set_reactivePower v k) = ctl_of k"
  "ctl_of (set_voltageL1 v k) = ctl_of k"
  "ctl_of (set_voltageL2 v k) = ctl_of k"
  "ctl_of (set_voltageL3 v k) = ctl_of k"
  "ctl_of (set_frequency v k) = ctl_of k"
  "ctl_of (set_isEnabled e k) = ctl_of k"
  "ctl_of (Breaker_assign p q v1 v2 v3 k) = ctl_of k"
  "ctl_of (Transformer_assign p q v1 v2 v3 k) = ctl_of k"
  "ctl_of (clear_voltageStepCommand k) = ctl_of k"
  by (cases k; simp add: Breaker_assign_def Transformer_assign_def clear_voltageStepCommand_def)+

lemma hoare_modify_kind_stable:
  assumes "stable I" "\<And>k. ctl_of (f k) = ctl_of k"
  shows "hoare I (modify_kind f r) I"
  by (rule hoare_modify_kind) (simp_all add: stable_kind[OF assms(1)] assms(2))

lemma hoare_writeModbus_stable: "stable I \<Longrightarrow> hoare I (writeModbus self) I"
  by (rule hoare_writeModbus) (rule stable_write)

lemma hoare_with_randint_stable:
  assumes "stable I" "\<And>d. hoare I (k d) I"
  shows "hoare I (with_randint a b k) I"
  by (rule hoare_with_randint[OF assms(2)]) (rule stable_rnd[OF assms(1)])

lemma hoare_with_self_inv:
  assumes "\<And>c. hoare I (k c) I"
  shows "hoare I (with_self self k) I"
  by (rule hoare_with_self) (auto intro: hoare_weaken[OF assms])

lemma hoare_with_attr_inv: "(\<And>v. hoare I (k v) I) \<Longrightarrow> hoare I (with_attr g r k) I"
  by (rule hoare_with_attr)

lemma hoare_with_sum_inv: "(\<And>v. hoare I (k v) I) \<Longrightarrow> hoare I (with_sum g acc rs k) I"
  by (rule hoare_with_sum)

lemma hoare_seq_inv: "hoare I f I \<Longrightarrow> hoare I g I \<Longrightarrow> hoare I (seq f g) I"
  by (rule hoare_seq)

lemma hoare_with_inverters_inv:
  "(\<And>invs. hoare I (k invs) I) \<Longrightarrow> hoare I (with_inverters m k) I"
  by (rule hoare_with_inverters)

lemma hoare_skip: "hoare I (\<lambda>w. (e, w)) I"
  by (rule hoare_return)

lemmas hoare_inv_rules = hoare_seq_inv hoare_with_attr_inv hoare_with_sum_inv
  hoare_with_self_inv hoare_with_inverters_inv hoare_for_each hoare_skip

lemma Module_update_inv: "stable I \<Longrightarrow> hoare I (Module_update self) I"
  unfolding Module_update_def by (rule hoare_writeModbus_stable)

lemma Breaker_finish_inv: "stable I \<Longrightarrow> hoare I (Breaker_finish self p q v1 v2 v3) I"
  unfolding Breaker_finish_def
  by (intro hoare_inv_rules hoare_modify_kind_stable hoare_writeModbus_stable) simp_all

lemma Breaker_main_inv:
  assumes s: "stable I"
  shows "hoare I (Breaker_main self m b p q v1 v2 v3) I"
proof (cases "moduleGroup m = ''mainBreakers''")
  case False
  then have "Breaker_main self m b p q v1 v2 v3 = Breaker_finish self p q v1 v2 v3"
    by (simp add: fun_eq_iff Breaker_main_def)
  then show ?thesis by (simp add: Breaker_finish_inv[OF s])
next
  case True
  note g = this
  show ?thesis
  proof (cases "b_breakers b")
    case None
    with g have "Breaker_main self m b p q v1 v2 v3 = (\<lambda>w. (None, w))"
      by (simp add: fun_eq_iff Breaker_main_def)
    then show ?thesis by (simp add: hoare_skip)
  next
    case (Some bs)
    note bs = this
    show ?thesis
    proof (cases bs)
      case Nil
      with g bs have "Breaker_main self m b p q v1 v2 v3 = (\<lambda>w. (None, w))"
        by (simp add: fun_eq_iff Breaker_main_def)
      then show ?thesis by (simp add: hoare_skip)
    next
      case (Cons x xs)
      show ?thesis
      proof (cases "b_transformers b")
        case None
        with g bs Cons have "Breaker_main self m b p q v1 v2 v3 =
            with_sum realPower_of p bs (\<lambda>p'.
            with_sum reactivePower_of q bs (\<lambda>q' w'. (Some (Py TypeError), w')))"
          by (simp add: fun_eq_iff Breaker_main_def)
        then show ?thesis by (simp add: hoare_inv_rules)
      next
        case (Some ts)
        with g bs Cons have "Breaker_main self m b p q v1 v2 v3 =
            with_sum realPower_of p bs (\<lambda>p'.
            with_sum reactivePower_of q bs (\<lambda>q'.
              with_sum voltageL1_of v1 ts (\<lambda>v1'.
              with_sum voltageL2_of v2 ts (\<lambda>v2'.
              with_sum voltageL3_of v3 ts (\<lambda>v3'.
              Breaker_finish self p' q' v1' v2' v3')))))"
          by (simp add: fun_eq_iff Breaker_main_def)
        then show ?thesis by (simp add: hoare_inv_rules Breaker_finish_inv[OF s])
      qed
    qed
  qed
qed


lemma Breaker_update_inv:
  assumes s: "stable I" and o: "objs w self = Some m" and k: "kind m = Breaker b0" and i: "I w"
  shows "I (snd (Breaker_update self m b0 w))"
proof -
  define b where "b = b0\<lparr> b_breakers := map_of (connections m) ''feederBreakers'',
                  b_inverters := map_of (connections m) ''inverters'',
                  b_transformers := map_of (connections m) ''transformers'' \<rparr>"
  define w1 where "w1 = w\<lparr>objs := (objs w)(self \<mapsto> m\<lparr>kind := Breaker b\<rparr>)\<rparr>"
  have i1: "I w1"
    unfolding w1_def using k by (intro stable_kind[OF s i o]) simp
  have main: "\<And>p q v1 v2 v3. hoare I (Breaker_main self m b p q v1 v2 v3) I"
    by (rule Breaker_main_inv[OF s])
  show ?thesis
  proof (cases "moduleGroup m = ''feederBreakers''")
    case False
    then have "Breaker_update self m b0 w = Breaker_main self m b 0 0 0 0 0 w1"
      by (simp add: Breaker_update_def Let_def b_def w1_def)
    with hoareD[OF main i1] show ?thesis by simp
  next
    case True
    note g = this
    show ?thesis
    proof (cases "b_inverters b")
      case None
      with g have "Breaker_update self m b0 w = (None, w1)"
        by (simp add: Breaker_update_def Let_def b_def w1_def)
      with i1 show ?thesis by simp
    next
      case (Some invs)
      note invs = this
      show ?thesis
      proof (cases invs)
        case Nil
        with g invs have "Breaker_update self m b0 w = (None, w1)"
          by (simp add: Breaker_update_def Let_def b_def w1_def)
        with i1 show ?thesis by simp
      next
        case (Cons x xs)
        with g invs have e: "Breaker_update self m b0 w =
             with_sum realPower_of 0 invs (\<lambda>p.
             with_sum reactivePower_of 0 invs (\<lambda>q.
             with_sum voltageL1_of 0 invs (\<lambda>v1.
             with_sum voltageL2_of 0 invs (\<lambda>v2.
             with_sum voltageL3_of 0 invs (\<lambda>v3.
             seq (for_each (modify_kind (set_isEnabled (b_closeCommand b))) invs)
               (Breaker_main self m b p q
                  (v1 / real (length invs)) (v2 / real (length invs))
                  (v3 / real (length invs)))))))) w1"
          by (simp add: Breaker_update_def Let_def b_def w1_def)
        have "hoare I (with_sum realPower_of 0 invs (\<lambda>p.
             with_sum reactivePower_of 0 invs (\<lambda>q.
             with_sum voltageL1_of 0 invs (\<lambda>v1.
             with_sum voltageL2_of 0 invs (\<lambda>v2.
             with_sum voltageL3_of 0 invs (\<lambda>v3.
             seq (for_each (modify_kind (set_isEnabled (b_closeCommand b))) invs)
               (Breaker_main self m b p q
                  (v1 / real (length invs)) (v2 / real (length invs))
                  (v3 / real (length invs))))))))) I"
          by (intro hoare_inv_rules hoare_modify_kind_stable[OF s] main) simp
        from hoareD[OF this i1] e show ?thesis by simp
      qed
    qed
  qed
qed

lemma Transformer_update_inv:
  assumes s: "stable I" and o: "objs w self = Some m" and k: "kind m = Transformer t0"
    and i: "I w"
  shows "I (snd (Transformer_update self m t0 w))"
proof -
  define t where "t = t0\<lparr> t_breakers := map_of (connections m) ''feederBreakers'' \<rparr>"
  define w1 where "w1 = w\<lparr>objs := (objs w)(self \<mapsto> m\<lparr>kind := Transformer t\<rparr>)\<rparr>"
  have i1: "I w1"
    unfolding w1_def using k by (intro stable_kind[OF s i o]) simp
  show ?thesis
  proof (cases "t_breakers t")
    case None
    then have "Transformer_update self m t0 w = (None, w1)"
      by (simp add: Transformer_update_def Let_def t_def w1_def)
    with i1 show ?thesis by simp
  next
    case (Some bs)
    note bs = this
    show ?thesis
    proof (cases bs)
      case Nil
      with bs have "Transformer_update self m t0 w = (None, w1)"
        by (simp add: Transformer_update_def Let_def t_def w1_def)
      with i1 show ?thesis by simp
    next
      case (Cons x xs)
      with bs have e: "Transformer_update self m t0 w =
          with_sum realPower_of 0 bs (\<lambda>p.
          with_sum reactivePower_of 0 bs (\<lambda>q.
          with_sum voltageL1_of 0 bs (\<lambda>v1.
          with_sum voltageL2_of 0 bs (\<lambda>v2.
          with_sum voltageL3_of 0 bs (\<lambda>v3.
          seq (modify_kind
                 (Transformer_assign p q
                    (v1 / real (length bs)) (v2 / real (length bs)) (v3 / real (length bs)))
                 self)
            (writeModbus self)))))) w1"
        by (simp add: Transformer_update_def Let_def t_def w1_def)
      have "hoare I (with_sum realPower_of 0 bs (\<lambda>p.
          with_sum reactivePower_of 0 bs (\<lambda>q.
          with_sum voltageL1_of 0 bs (\<lambda>v1.
          with_sum voltageL2_of 0 bs (\<lambda>v2.
          with_sum voltageL3_of 0 bs (\<lambda>v3.
          seq (modify_kind
                 (Transformer_assign p q
                    (v1 / real (length bs)) (v2 / real (length bs)) (v3 / real (length bs)))
                 self)
            (writeModbus self))))))) I"
        by (intro hoare_inv_rules hoare_modify_kind_stable[OF s] hoare_writeModbus_stable[OF s])
          simp
      from hoareD[OF this i1] e show ?thesis by simp
    qed
  qed
qed

lemma set_voltages_inv: "stable I \<Longrightarrow> hoare I (set_voltages v r) I"
  unfolding set_voltages_def
  by (intro hoare_inv_rules hoare_modify_kind_stable) simp_all

lemma SimulationController_grid_inv:
  assumes s: "stable I"
  shows "hoare I (SimulationController_grid self m mainBreaker checkMeter) I"
  unfolding SimulationController_grid_def Let_def
  by (intro hoare_inv_rules hoare_with_randint_stable[OF s] hoare_modify_kind_stable[OF s]
      set_voltages_inv[OF s] if_split[where P = "\<lambda>f. hoare I f I", THEN iffD2] conjI impI)
    simp_all

lemma update_inv:
  assumes s: "stable I"
    and weather: "\<And>self m. hoare (\<lambda>w. I w \<and> same_controller self m w)
      (SimulationController_weather self m) I"
  shows "hoare I (update self) I"
proof (rule hoareI)
  fix w assume i: "I w"
  show "I (snd (update self w))"
  proof (cases "objs w self")
    case None
    with i show ?thesis by (simp add: update_def)
  next
    case (Some m)
    show ?thesis
    proof (cases "kind m")
      case (Inverter x)
      with Some hoareD[OF Module_update_inv[OF s] i] show ?thesis by (simp add: update_def)
    next
      case (Meter x)
      with Some hoareD[OF Module_update_inv[OF s] i] show ?thesis by (simp add: update_def)
    next
      case (Breaker b)
      with Some Breaker_update_inv[OF s Some Breaker i] show ?thesis by (simp add: update_def)
    next
      case (Transformer t)
      with Some Transformer_update_inv[OF s Some Transformer i] show ?thesis
        by (simp add: update_def)
    next
      case (SimulationController c)
      have u: "update self w = SimulationController_update self m w"
        using Some SimulationController by (simp add: update_def)
      show ?thesis
      proof (cases "index0 (connections m) ''breakers''")
        case (Inl e)
        with i u show ?thesis by (simp add: SimulationController_update_def)
      next
        case (Inr mainBreaker)
        note mb = this
        show ?thesis
        proof (cases "index0 (connections m) ''meters''")
          case (Inl e)
          with i u mb show ?thesis by (simp add: SimulationController_update_def)
        next
          case (Inr checkMeter)
          let ?J = "\<lambda>w. I w \<and> same_controller self m w"
          have j: "?J w"
            using i Some SimulationController by (simp add: same_controller_def)
          have g: "hoare ?J (SimulationController_grid self m mainBreaker checkMeter) ?J"
            by (rule SimulationController_grid_inv[OF stable_same_controller[OF s]])
          have r: "hoare ?J (seq (SimulationController_weather self m) (writeModbus self)) I"
            by (rule hoare_seq[OF weather hoare_writeModbus_stable[OF s]])
          have "hoare ?J (seq (SimulationController_grid self m mainBreaker checkMeter)
                 (seq (SimulationController_weather self m) (writeModbus self))) I"
            by (rule hoare_seq[OF g r]) simp
          from hoareD[OF this j] u mb Inr show ?thesis
            by (simp add: SimulationController_update_def)
        qed
      qed
    qed
  qed
qed

lemma updateDevices_inv:
  assumes s: "stable I"
    and weather: "\<And>self m. hoare (\<lambda>w. I w \<and> same_controller self m w)
      (SimulationController_weather self m) I"
  shows "I w \<Longrightarrow> I (snd (updateDevices w))"
  unfolding updateDevices_def
  by (rule hoareD[OF hoare_for_each]) (rule update_inv[OF s weather])

lemma start_pass_inv:
  assumes s: "stable I"
    and weather: "\<And>self m. hoare (\<lambda>w. I w \<and> same_controller self m w)
      (SimulationController_weather self m) I"
    and i: "I w"
  shows "I (start_pass w)"
proof -
  have u: "I (snd (updateDevices w))" by (rule updateDevices_inv[OF s weather i])
  obtain e w' where p: "updateDevices w = (e, w')" by (cases "updateDevices w")
  with u have "I w'" by simp
  with p show ?thesis
    by (cases e) (simp_all add: start_pass_def stable_errlog[OF s])
qed

lemma run_inv:
  assumes s: "stable I"
    and weather: "\<And>self m. hoare (\<lambda>w. I w \<and> same_controller self m w)
      (SimulationController_weather self m) I"
  shows "I w \<Longrightarrow> I (run n w)"
proof (induction n arbitrary: w)
  case 0
  then show ?case by simp
next
  case (Suc n)
  from start_pass_inv[OF s weather Suc.prems] Suc.IH show ?case by simp
qed


section \<open>The weather step\<close>

lemma clamp_irradiance_bounds:
  "lo \<le> hi \<Longrightarrow> lo \<le> c_irradiance (clamp_irradiance lo hi c)
     \<and> c_irradiance (clamp_irradiance lo hi c) \<le> hi"
  by (simp add: clamp_irradiance_def)

lemma clamp_irradiance_state [simp]:
  "c_weatherState (clamp_irradiance lo hi c) = c_weatherState c"
  by (simp add: clamp_irradiance_def)

lemma poa_step_bounds:
  "lo \<le> hi \<Longrightarrow> lo \<le> c_irradiance (fst (poa_step big small a b lo hi c w))
     \<and> c_irradiance (fst (poa_step big small a b lo hi c w)) \<le> hi"
  by (simp add: poa_step_def randint_def Let_def clamp_irradiance_bounds)

lemma poa_step_state [simp]:
  "c_weatherState (fst (poa_step big small a b lo hi c w)) = c_weatherState c"
  by (simp add: poa_step_def randint_def Let_def)

lemma poa_step_world:
  "snd (poa_step big small a b lo hi c w) = w\<lparr>rnd := (\<lambda>n. rnd w (Suc (Suc n)))\<rparr>"
  by (simp add: poa_step_def randint_def Let_def)

lemma dawn_ramp_state [simp]:
  "c_weatherState (fst (dawn_ramp n lo hi c w)) = c_weatherState c"
proof (induction n arbitrary: lo hi c w)
  case 0
  show ?case by simp
next
  case (Suc n)
  obtain c' w' where p: "poa_step 10 1 (- 10) 75 lo hi c w = (c', w')"
    by (cases "poa_step 10 1 (- 10) 75 lo hi c w")
  have "c_weatherState c' = c_weatherState c"
    using poa_step_state[of 10 1 "- 10" 75 lo hi c w] p by simp
  with p Suc.IH show ?case by simp
qed

lemma dusk_ramp_state [simp]:
  "c_weatherState (fst (dusk_ramp n lo hi c w)) = c_weatherState c"
proof (induction n arbitrary: lo hi c w)
  case 0
  show ?case by simp
next
  case (Suc n)
  obtain c' w' where p: "poa_step 10 1 (- 10) 75 lo hi c w = (c', w')"
    by (cases "poa_step 10 1 (- 10) 75 lo hi c w")
  have "c_weatherState c' = c_weatherState c"
    using poa_step_state[of 10 1 "- 10" 75 lo hi c w] p by simp
  with p Suc.IH show ?case by simp
qed

lemma dawn_ramp_world: "\<exists>f. snd (dawn_ramp n lo hi c w) = w\<lparr>rnd := f\<rparr>"
proof (induction n arbitrary: lo hi c w)
  case 0
  have "w = w\<lparr>rnd := rnd w\<rparr>" by simp
  then show ?case by (metis dawn_ramp.simps(1) snd_conv)
next
  case (Suc n)
  obtain c' w' where p: "poa_step 10 1 (- 10) 75 lo hi c w = (c', w')"
    by (cases "poa_step 10 1 (- 10) 75 lo hi c w")
  have w': "w' = w\<lparr>rnd := (\<lambda>n. rnd w (Suc (Suc n)))\<rparr>"
    using poa_step_world[of 10 1 "- 10" 75 lo hi c w] p by simp
  from Suc.IH[of "lo + 75" "hi + 80" c' w'] obtain f where
    "snd (dawn_ramp n (lo + 75) (hi + 80) c' w') = w'\<lparr>rnd := f\<rparr>" by blast
  with p w' have "snd (dawn_ramp (Suc n) lo hi c w) = w\<lparr>rnd := f\<rparr>" by simp
  then show ?case by blast
qed

lemma dusk_ramp_world: "\<exists>f. snd (dusk_ramp n lo hi c w) = w\<lparr>rnd := f\<rparr>"
proof (induction n arbitrary: lo hi c w)
  case 0
  have "w = w\<lparr>rnd := rnd w\<rparr>" by simp
  then show ?case by (metis dusk_ramp.simps(1) snd_conv)
next
  case (Suc n)
  obtain c' w' where p: "poa_step 10 1 (- 10) 75 lo hi c w = (c', w')"
    by (cases "poa_step 10 1 (- 10) 75 lo hi c w")
  have w': "w' = w\<lparr>rnd := (\<lambda>n. rnd w (Suc (Suc n)))\<rparr>"
    using poa_step_world[of 10 1 "- 10" 75 lo hi c w] p by simp
  from Suc.IH[of _ _ c' w'] obtain f where
    "snd (dusk_ramp n (if lo - 75 < 0 then 0 else lo - 75)
            (if hi - 80 < 0 then 0 else hi - 80) c' w') = w'\<lparr>rnd := f\<rparr>" by blast
  with p w' have "snd (dusk_ramp (Suc n) lo hi c w) = w\<lparr>rnd := f\<rparr>" by simp
  then show ?case by blast
qed

lemma weather_dawn_eq:
  "weather_dawn (c, w) =
     (if c_weatherState c = 0
      then ((fst (dawn_ramp 60 0 200 c w))\<lparr>c_weatherState := 1\<rparr>, snd (dawn_ramp 60 0 200 c w))
      else (c, w))"
  by (simp add: weather_dawn_def case_prod_beta)

lemma weather_dusk_eq:
  "weather_dusk (c, w) =
     (if c_weatherState c = 4
      then ((fst (dusk_ramp 60 100 500 c w))\<lparr>c_weatherState := 5\<rparr>, snd (dusk_ramp 60 100 500 c w))
      else (c, w))"
  by (simp add: weather_dusk_def case_prod_beta)

lemma same_world: "\<exists>f. w = w\<lparr>rnd := f\<rparr>"
proof
  show "w = w\<lparr>rnd := rnd w\<rparr>" by simp
qed

lemma weather_dawn_world: "\<exists>f. snd (weather_dawn (c, w)) = w\<lparr>rnd := f\<rparr>"
  using dawn_ramp_world[of 60 0 200 c w] same_world[of w] by (simp add: weather_dawn_eq)

lemma weather_dusk_world: "\<exists>f. snd (weather_dusk (c, w)) = w\<lparr>rnd := f\<rparr>"
  using dusk_ramp_world[of 60 100 500 c w] same_world[of w] by (simp add: weather_dusk_eq)

lemma weather_plateau_world: "\<exists>f. snd (weather_plateau (c, w)) = w\<lparr>rnd := f\<rparr>"
  using same_world[of w] by (auto simp: weather_plateau_def poa_step_world)

lemma weather_night_world: "snd (weather_night (c, w)) = w"
  by (simp add: weather_night_def)

lemma weather_step_world: "\<exists>f. snd (weather_step c w) = w\<lparr>rnd := f\<rparr>"
proof -
  obtain c1 w1 where d: "weather_dawn (c, w) = (c1, w1)" by (cases "weather_dawn (c, w)")
  obtain c2 w2 where p: "weather_plateau (c1, w1) = (c2, w2)"
    by (cases "weather_plateau (c1, w1)")
  obtain c3 w3 where k: "weather_dusk (c2, w2) = (c3, w3)" by (cases "weather_dusk (c2, w2)")
  from weather_dawn_world[of c w] d obtain f1 where 1: "w1 = w\<lparr>rnd := f1\<rparr>" by auto
  from weather_plateau_world[of c1 w1] p obtain f2 where 2: "w2 = w1\<lparr>rnd := f2\<rparr>" by auto
  from weather_dusk_world[of c2 w2] k obtain f3 where 3: "w3 = w2\<lparr>rnd := f3\<rparr>" by auto
  have "snd (weather_step c w) = w3"
    using d p k weather_night_world[of c3 w3] by (simp add: weather_step_def)
  with 1 2 3 have "snd (weather_step c w) = w\<lparr>rnd := f3\<rparr>" by simp
  then show ?thesis by blast
qed

text \<open>What the weather step does to the controller, state by state.\<close>

lemma weather_step_day:
  assumes "c_weatherState c = 0 \<or> c_weatherState c = 1"
  shows "c_weatherState (fst (weather_step c w)) = 1
    \<and> 800 \<le> c_irradiance (fst (weather_step c w))
    \<and> c_irradiance (fst (weather_step c w)) \<le> 950"
proof -
  obtain c1 w1 where d: "weather_dawn (c, w) = (c1, w1)" by (cases "weather_dawn (c, w)")
  have s1: "c_weatherState c1 = 1"
    using assms d by (auto simp: weather_dawn_eq split: if_splits)
  define c2 where "c2 = fst (poa_step 10 1 (- 100) 100 800 950 c1 w1)"
  define w2 where "w2 = snd (poa_step 10 1 (- 100) 100 800 950 c1 w1)"
  have p: "weather_plateau (c1, w1) = (c2, w2)"
    using s1 by (simp add: weather_plateau_def c2_def w2_def)
  have s2: "c_weatherState c2 = 1" using s1 by (simp add: c2_def)
  have b2: "800 \<le> c_irradiance c2 \<and> c_irradiance c2 \<le> 950"
    unfolding c2_def by (rule poa_step_bounds) simp
  have "weather_step c w = (c2, w2)"
    using d p s2 by (simp add: weather_step_def weather_dusk_def weather_night_def)
  with s2 b2 show ?thesis by simp
qed

lemma weather_step_cloudy:
  assumes "c_weatherState c = 2"
  shows "c_weatherState (fst (weather_step c w)) = 2
    \<and> 300 \<le> c_irradiance (fst (weather_step c w))
    \<and> c_irradiance (fst (weather_step c w)) \<le> 950"
proof -
  define c2 where "c2 = fst (poa_step 40 10 (- 100) 100 300 950 c w)"
  define w2 where "w2 = snd (poa_step 40 10 (- 100) 100 300 950 c w)"
  have d: "weather_dawn (c, w) = (c, w)" using assms by (simp add: weather_dawn_def)
  have p: "weather_plateau (c, w) = (c2, w2)"
    using assms by (simp add: weather_plateau_def c2_def w2_def)
  have s2: "c_weatherState c2 = 2" using assms by (simp add: c2_def)
  have b2: "300 \<le> c_irradiance c2 \<and> c_irradiance c2 \<le> 950"
    unfolding c2_def by (rule poa_step_bounds) simp
  have "weather_step c w = (c2, w2)"
    using d p s2 by (simp add: weather_step_def weather_dusk_def weather_night_def)
  with s2 b2 show ?thesis by simp
qed

lemma weather_step_night:
  assumes "c_weatherState c = 4 \<or> c_weatherState c = 5"
  shows "c_weatherState (fst (weather_step c w)) = 0
    \<and> c_irradiance (fst (weather_step c w)) = 0"
proof -
  have d: "weather_dawn (c, w) = (c, w)" using assms by (auto simp: weather_dawn_def)
  have p: "weather_plateau (c, w) = (c, w)" using assms by (auto simp: weather_plateau_def)
  obtain c3 w3 where k: "weather_dusk (c, w) = (c3, w3)" by (cases "weather_dusk (c, w)")
  have s3: "c_weatherState c3 = 5"
    using assms k by (auto simp: weather_dusk_eq split: if_splits)
  have "weather_step c w = (c3\<lparr>c_irradiance := 0, c_weatherState := 0\<rparr>, w3)"
    using d p k s3 by (simp add: weather_step_def weather_night_def)
  then show ?thesis by simp
qed

lemma weather_step_other:
  assumes "c_weatherState c \<noteq> 0" "c_weatherState c \<noteq> 1" "c_weatherState c \<noteq> 2"
    "c_weatherState c \<noteq> 4" "c_weatherState c \<noteq> 5"
  shows "weather_step c w = (c, w)"
  using assms
  by (simp add: weather_step_def weather_dawn_def weather_plateau_def weather_dusk_def
      weather_night_def)

lemma weather_step_range:
  assumes "0 \<le> c_irradiance c" "c_irradiance c \<le> 1000"
  shows "0 \<le> c_irradiance (fst (weather_step c w))
    \<and> c_irradiance (fst (weather_step c w)) \<le> 1000"
proof -
  consider "c_weatherState c = 0 \<or> c_weatherState c = 1" | "c_weatherState c = 2"
    | "c_weatherState c = 4 \<or> c_weatherState c = 5"
    | "c_weatherState c \<noteq> 0" "c_weatherState c \<noteq> 1" "c_weatherState c \<noteq> 2"
      "c_weatherState c \<noteq> 4" "c_weatherState c \<noteq> 5"
    by blast
  then show ?thesis
  proof cases
    case 1
    from weather_step_day[OF this, of w] show ?thesis by simp
  next
    case 2
    from weather_step_cloudy[OF this, of w] show ?thesis by simp
  next
    case 3
    from weather_step_night[OF this, of w] show ?thesis by simp
  next
    case 4
    from weather_step_other[OF this, of w] assms show ?thesis by simp
  qed
qed

section \<open>Register accesses of a tick\<close>






section \<open>Outcomes of an update\<close>

lemma tripleI:
  assumes "\<And>w. P w \<Longrightarrow> fst (f w) = None \<Longrightarrow> Q (snd (f w))"
    and "\<And>w e. P w \<Longrightarrow> fst (f w) = Some e \<Longrightarrow> E (snd (f w))"
  shows "triple P f Q E"
  using assms unfolding triple_def by auto


lemma triple_raises: "triple P f Q E \<Longrightarrow> P w \<Longrightarrow> fst (f w) = Some e \<Longrightarrow> E (snd (f w))"
  by (simp add: triple_def)

lemma triple_weaken:
  assumes "triple P' f Q' E'" "\<And>w. P w \<Longrightarrow> P' w" "\<And>w. Q' w \<Longrightarrow> Q w" "\<And>w. E' w \<Longrightarrow> E w"
  shows "triple P f Q E"
  using assms unfolding triple_def by auto
































lemmas update_defs = update_def Module_update_def writeModbus_def setValues_def decode_def
  seq_def slice_assign_def
  Inverter_inputs_def Inverter_realPower_def Inverter_reactivePower_def truthy_def py_int_def

lemmas init_defs = Simulator_init_def build_defs context_defs





section \<open>An exception during a pass\<close>



lemmas breaker_defs = Breaker_update_def Breaker_main_def Breaker_finish_def Breaker_assign_def
  with_sum_def read_attr_def modify_kind_def Let_def
  Breaker_inputs_def Breaker_discretes_def Breaker_realPower_def Breaker_reactivePower_def
  Breaker_voltageL1_def Breaker_voltageL2_def Breaker_voltageL3_def Breaker_frequency_def
  Breaker_powerFactor_def isBreakerClosed_def powerFactorOf_def







section \<open>The irradiance of the controller\<close>

lemma stable_conj:
  assumes "stable I" "stable J"
  shows "stable (\<lambda>w. I w \<and> J w)"
  unfolding stable_def
  by (intro conjI allI impI; elim conjE)
    (simp_all add: stable_rnd[OF assms(1)] stable_rnd[OF assms(2)]
      stable_write[OF assms(1)] stable_write[OF assms(2)]
      stable_errlog[OF assms(1)] stable_errlog[OF assms(2)]
      stable_kind[OF assms(1)] stable_kind[OF assms(2)])

lemma stable_controller_at: "stable (controller_at r e)"
  unfolding stable_def controller_at_def by auto

lemma stable_ctl_inv: "stable ctl_inv"
  unfolding stable_def
proof (intro conjI allI impI)
  fix w r m k'
  assume i: "ctl_inv w" and o: "objs w r = Some m" and c: "ctl_of k' = ctl_of (kind m)"
  show "ctl_inv (w\<lparr>objs := (objs w)(r \<mapsto> m\<lparr>kind := k'\<rparr>)\<rparr>)"
    unfolding ctl_inv_def
  proof (intro allI impI)
    fix r' m' x e
    assume o': "objs (w\<lparr>objs := (objs w)(r \<mapsto> m\<lparr>kind := k'\<rparr>)\<rparr>) r' = Some m'"
      and c': "ctl_of (kind m') = Some (x, e)"
    obtain m0 where m0: "objs w r' = Some m0" "ctl_of (kind m0) = Some (x, e)"
      "connections m0 = connections m'"
      using o' c' o c by (cases "r' = r") auto
    from i m0 have range: "0 \<le> x \<and> x \<le> 1000"
      and typed: "\<And>invs i mi. map_of (connections m0) ''inverters'' = Some invs \<Longrightarrow>
              i \<in> set invs \<Longrightarrow> objs w i = Some mi \<Longrightarrow> ctl_of (kind mi) = None"
      unfolding ctl_inv_def by blast+
    have "ctl_of (kind mi) = None"
      if l: "map_of (connections m') ''inverters'' = Some invs" and s: "i \<in> set invs"
        and oi: "objs (w\<lparr>objs := (objs w)(r \<mapsto> m\<lparr>kind := k'\<rparr>)\<rparr>) i = Some mi"
      for invs i mi
    proof (cases "i = r")
      case True
      with oi have "kind mi = k'" by auto
      moreover have "ctl_of (kind m) = None"
        using typed[of invs r m] l s o m0(3) True by simp
      ultimately show ?thesis using c by simp
    next
      case False
      with oi have "objs w i = Some mi" by simp
      with typed[of invs i mi] l s m0(3) show ?thesis by simp
    qed
    with range show "0 \<le> x \<and> x \<le> 1000
        \<and> (\<forall>invs i mi. map_of (connections m') ''inverters'' = Some invs \<longrightarrow>
              i \<in> set invs \<longrightarrow>
              objs (w\<lparr>objs := (objs w)(r \<mapsto> m\<lparr>kind := k'\<rparr>)\<rparr>) i = Some mi \<longrightarrow>
              ctl_of (kind mi) = None)"
      by blast
  qed
qed (simp_all add: ctl_inv_def)


lemma ctl_of_store_weather:
  "ctl_of (store_weather c' k) = map_option (\<lambda>(x, e). (c_irradiance c', e)) (ctl_of k)"
  by (cases k) (simp_all add: store_weather_def)

lemma ctl_of_set_irradiance: "ctl_of k = None \<Longrightarrow> ctl_of (set_irradiance x k) = None"
  by (cases k) simp_all

lemma store_weather_inv:
  assumes r: "0 \<le> c_irradiance c'" "c_irradiance c' \<le> 1000"
    and i: "ctl_inv w" and sc: "same_controller self m w" and o: "objs w self = Some ms"
  shows "ctl_inv (w\<lparr>objs := (objs w)(self \<mapsto> ms\<lparr>kind := store_weather c' (kind ms)\<rparr>)\<rparr>)"
  unfolding ctl_inv_def
proof (intro allI impI)
  let ?w = "w\<lparr>objs := (objs w)(self \<mapsto> ms\<lparr>kind := store_weather c' (kind ms)\<rparr>)\<rparr>"
  fix r' m' x e
  assume o': "objs ?w r' = Some m'" and c': "ctl_of (kind m') = Some (x, e)"
  have self_ctl: "ctl_of (kind ms) \<noteq> None"
    using sc o by (auto simp: same_controller_def)
  obtain m0 x0 where m0: "objs w r' = Some m0" "ctl_of (kind m0) = Some (x0, e)"
    "connections m0 = connections m'" "r' \<noteq> self \<longrightarrow> x0 = x" "r' = self \<longrightarrow> x = c_irradiance c'"
    using o' c' o by (cases "r' = self") (auto simp: ctl_of_store_weather)
  from i m0(1,2) have range0: "0 \<le> x0 \<and> x0 \<le> 1000"
    and typed: "\<And>invs i mi. map_of (connections m0) ''inverters'' = Some invs \<Longrightarrow>
              i \<in> set invs \<Longrightarrow> objs w i = Some mi \<Longrightarrow> ctl_of (kind mi) = None"
    unfolding ctl_inv_def by blast+
  have range: "0 \<le> x \<and> x \<le> 1000"
    using range0 r m0(4,5) by (cases "r' = self") auto
  have "ctl_of (kind mi) = None"
    if l: "map_of (connections m') ''inverters'' = Some invs" and s: "i \<in> set invs"
      and oi: "objs ?w i = Some mi" for invs i mi
  proof (cases "i = self")
    case True
    have "ctl_of (kind ms) = None"
      using typed[of invs self ms] l s o m0(3) True by simp
    with self_ctl show ?thesis by simp
  next
    case False
    with oi have "objs w i = Some mi" by simp
    with typed[of invs i mi] l s m0(3) show ?thesis by simp
  qed
  with range show "0 \<le> x \<and> x \<le> 1000
      \<and> (\<forall>invs i mi. map_of (connections m') ''inverters'' = Some invs \<longrightarrow>
            i \<in> set invs \<longrightarrow> objs ?w i = Some mi \<longrightarrow> ctl_of (kind mi) = None)"
    by blast
qed

lemma SimulationController_weather_ctl_inv:
  "hoare (\<lambda>w. (ctl_inv w \<and> controller_at r e w) \<and> same_controller self m w)
     (SimulationController_weather self m) (\<lambda>w. ctl_inv w \<and> controller_at r e w)"
proof -
  let ?K = "\<lambda>w. ctl_inv w \<and> controller_at r e w"
  let ?P = "\<lambda>w. ?K w \<and> same_controller self m w"
  have sP: "stable ?P"
    by (rule stable_same_controller[OF stable_conj[OF stable_ctl_inv stable_controller_at]])
  have push: "hoare ?P (push_irradiance self i) ?P"
    if l: "map_of (connections m) ''inverters'' = Some invs" and s: "i \<in> set invs" for invs i
    unfolding push_irradiance_def Let_def
  proof (intro hoare_inv_rules hoare_with_randint_stable[OF sP] hoare_modify_kind)
    fix c d w mi
    assume p: "?P w" and oi: "objs w i = Some mi"
    from p obtain m' where m': "objs w self = Some m'" "connections m' = connections m"
      "ctl_of (kind m') \<noteq> None"
      by (auto simp: same_controller_def)
    from m'(3) obtain x0 e0 where "ctl_of (kind m') = Some (x0, e0)" by auto
    with p m'(1,2) l s oi have "ctl_of (kind mi) = None"
      unfolding ctl_inv_def by metis
    then have "ctl_of (set_irradiance (if c_irradiance c + real_of_int d < 0 then 0
        else c_irradiance c + real_of_int d) (kind mi)) = ctl_of (kind mi)"
      by (simp add: ctl_of_set_irradiance)
    from stable_kind[OF sP p oi this]
    show "?P (w\<lparr>objs := (objs w)(i \<mapsto> mi\<lparr>kind := set_irradiance
        (if c_irradiance c + real_of_int d < 0 then 0 else c_irradiance c + real_of_int d)
        (kind mi)\<rparr>)\<rparr>)" .
  qed simp
  show ?thesis
    unfolding SimulationController_weather_def
  proof (rule hoare_with_self)
    fix c
    show "hoare (\<lambda>w. ?P w \<and> (\<exists>m. objs w self = Some m \<and> kind m = SimulationController c))
        (\<lambda>w. if c_simWeatherEnabled c
              then case weather_step c w of
                   (c', w') \<Rightarrow>
                     seq (modify_kind (store_weather c') self)
                      (with_inverters m (for_each (push_irradiance self))) w'
              else (None, w)) ?K"
    proof (rule hoareI)
      fix w
      assume a: "?P w \<and> (\<exists>m. objs w self = Some m \<and> kind m = SimulationController c)"
      then have p: "?P w" by blast
      from a obtain ms where ms: "objs w self = Some ms" "kind ms = SimulationController c"
        by blast
      from p ms have rc: "0 \<le> c_irradiance c \<and> c_irradiance c \<le> 1000"
        unfolding ctl_inv_def by fastforce
      show "?K (snd (if c_simWeatherEnabled c
              then case weather_step c w of
                   (c', w') \<Rightarrow>
                     seq (modify_kind (store_weather c') self)
                      (with_inverters m (for_each (push_irradiance self))) w'
              else (None, w)))"
      proof (cases "c_simWeatherEnabled c")
        case False
        with p show ?thesis by simp
      next
        case True
        obtain c' w' where ws: "weather_step c w = (c', w')" by (cases "weather_step c w")
        from weather_step_world[of c w] ws obtain f where "w' = w\<lparr>rnd := f\<rparr>" by auto
        with stable_rnd[OF sP p] have p': "?P w'" by simp
        have rc': "0 \<le> c_irradiance c'" "c_irradiance c' \<le> 1000"
          using weather_step_range[of c w] rc ws by simp_all
        have st: "hoare ?P (modify_kind (store_weather c') self) ?P"
        proof (rule hoare_modify_kind)
          fix w1 m1
          assume p1: "?P w1" and o1: "objs w1 self = Some m1"
          let ?w = "w1\<lparr>objs := (objs w1)(self \<mapsto> m1\<lparr>kind := store_weather c' (kind m1)\<rparr>)\<rparr>"
          have 1: "ctl_inv ?w"
            using store_weather_inv[OF rc' _ _ o1] p1 by blast
          have 2: "controller_at r e ?w"
            using p1 o1 by (cases "r = self") (auto simp: controller_at_def ctl_of_store_weather)
          have 3: "same_controller self m ?w"
            using p1 o1 by (auto simp: same_controller_def ctl_of_store_weather)
          from 1 2 3 show "?P ?w" by blast
        qed simp
        have "hoare ?P (seq (modify_kind (store_weather c') self)
                      (with_inverters m (for_each (push_irradiance self)))) ?P"
          by (intro hoare_seq_inv st hoare_with_inverters hoare_for_each push) simp_all
        from hoareD[OF this p'] True ws show ?thesis by simp
      qed
    qed
  qed simp
qed

lemma run_ctl_inv:
  assumes "ctl_inv w" "controller_at r e w"
  shows "ctl_inv (run n w) \<and> controller_at r e (run n w)"
  using run_inv[of "\<lambda>w. ctl_inv w \<and> controller_at r e w" w n,
      OF stable_conj[OF stable_ctl_inv stable_controller_at]
        SimulationController_weather_ctl_inv] assms
  by simp


lemma Simulator_modules_ctl: "Simulator_modules g = Some k \<Longrightarrow> ctl_of k = None"
  by (auto simp: Simulator_modules_def split: if_splits)

lemma instantiate_gen_inv:
  "instantiate g ds n w = Inr (n', w') \<Longrightarrow> gen_inv n w \<Longrightarrow> gen_inv n' w'"
proof (induction ds arbitrary: n w)
  case Nil
  then show ?case by simp
next
  case (Cons d ds)
  from Cons.prems(1) obtain k nm where k: "Simulator_modules g = Some k"
    and nm: "cfg_name d = Some nm"
    by (auto split: option.splits)
  let ?w = "w\<lparr> objs := (objs w)(n \<mapsto>
                        \<lparr> slaveId = n, name = nm, moduleGroup = g,
                          connections = [], config = d, kind = k \<rparr>),
                      devices := AList.map_entry g (\<lambda>ds. ds @ [n]) (devices w) \<rparr>"
  from Cons.prems(1) k nm have r: "instantiate g ds (n + 1) ?w = Inr (n', w')" by simp
  have "gen_inv (n + 1) ?w"
    using Cons.prems(2) Simulator_modules_ctl[OF k]
    unfolding gen_inv_def
    by (auto simp: map_of_map_entry less_Suc_eq split: if_splits option.splits)
  from Cons.IH[OF r this] show ?case .
qed

lemma instantiate_groups_gen_inv:
  "instantiate_groups cfg n w = Inr (n', w') \<Longrightarrow> gen_inv n w \<Longrightarrow> gen_inv n' w'"
proof (induction cfg arbitrary: n w)
  case Nil
  then show ?case by simp
next
  case (Cons gd cfg)
  obtain g ds where gd: "gd = (g, ds)" by (cases gd)
  from Cons.prems(1) gd obtain n1 w1 where
    i: "instantiate g ds n (w\<lparr>devices := AList.update g [] (devices w)\<rparr>) = Inr (n1, w1)"
    and r: "instantiate_groups cfg n1 w1 = Inr (n', w')"
    by (auto split: sum.splits)
  have "gen_inv n (w\<lparr>devices := AList.update g [] (devices w)\<rparr>)"
    using Cons.prems(2) unfolding gen_inv_def
    by (auto simp: update_conv' split: if_splits)
  from Cons.IH[OF r instantiate_gen_inv[OF i this]] show ?case .
qed

lemma connect_gen_inv: "gen_inv n w \<Longrightarrow> gen_inv n (snd (connect r w))"
  unfolding gen_inv_def connect_def
  by (auto split: option.splits list.splits sum.splits if_splits)

lemma add_simControl_ctl_inv:
  assumes "add_simControl simWeather n w = Inr w'" "gen_inv n w"
  shows "ctl_inv w' \<and> map_of (devices w') ''simControl'' = Some [n]
    \<and> controller_at n simWeather w'"
proof -
  let ?d = "AList.update ''simControl'' [] (devices w)"
  from assms(1) obtain invs ms bs where
    invs: "map_of ?d ''inverters'' = Some invs"
    and w': "w' = w\<lparr> objs := (objs w)(n \<mapsto>
                              \<lparr> slaveId = n, name = ''simControl'',
                                moduleGroup = ''Modules'',
                                connections =
                                  [(''inverters'', invs), (''meters'', ms), (''breakers'', bs)],
                                config = \<lparr> cfg_name = None, cfg_connections = None \<rparr>,
                                kind = SimulationController
                                  (SimulationController_init\<lparr>c_simWeatherEnabled := simWeather\<rparr>) \<rparr>),
                            devices := AList.map_entry ''simControl''
                              (\<lambda>ds. ds @ [n]) ?d \<rparr>"
    by (auto simp: add_simControl_def Let_def split: option.splits)
  have i2: "map_of (devices w) ''inverters'' = Some invs"
    using invs by (simp add: update_conv')
  have lt: "\<And>d. d \<in> set invs \<Longrightarrow> d < n"
    using assms(2) i2 unfolding gen_inv_def by blast
  have old: "\<And>r m. objs w r = Some m \<Longrightarrow> r < n \<and> ctl_of (kind m) = None"
    using assms(2) unfolding gen_inv_def by blast
  have 1: "ctl_inv w'"
    unfolding ctl_inv_def w'
    using old lt by (auto simp: SimulationController_init_def split: if_splits)
  have 2: "map_of (devices w') ''simControl'' = Some [n]"
    unfolding w' by (simp add: map_of_map_entry update_conv')
  have 3: "controller_at n simWeather w'"
    unfolding w' controller_at_def by simp
  from 1 2 3 show ?thesis by blast
qed

lemma for_each_allocate_devices: "devices (snd (for_each allocate_slave xs w)) = devices w"
proof (rule for_each_preserves[where P = "\<lambda>w'. devices w' = devices w"])
  fix x and w' :: world
  assume "devices w' = devices w"
  with allocate_slave_cases[of x w'] show "devices (snd (allocate_slave x w')) = devices w"
    by auto
qed simp

lemma ctl_inv_objs: "objs w' = objs w \<Longrightarrow> ctl_inv w' = ctl_inv w"
  by (simp add: ctl_inv_def)

lemma controller_at_objs: "objs w' = objs w \<Longrightarrow> controller_at r e w' = controller_at r e w"
  by (simp add: controller_at_def)

lemma Simulator_init_ctl_inv:
  assumes "Simulator_init cfg simWeather rs = Inr w0"
  shows "\<exists>r. map_of (devices w0) ''simControl'' = Some [r] \<and> ctl_inv w0
    \<and> controller_at r simWeather w0"
proof -
  from assms obtain w where g: "generateDevices cfg simWeather (new_world rs) = Inr w"
    and b: "w0 = snd (buildContext w)"
    by (auto simp: Simulator_init_def split: sum.splits prod.splits option.splits)
  from g obtain n w1 w2 where
    i: "instantiate_groups cfg 1 (new_world rs) = Inr (n, w1)"
    and c: "w2 = snd (for_each connect (concat (map snd (devices w1))) w1)"
    and a: "add_simControl simWeather n w2 = Inr w"
    by (auto simp: generateDevices_def split: sum.splits prod.splits option.splits)
  have "gen_inv 1 (new_world rs)" by (simp add: gen_inv_def new_world_def)
  from instantiate_groups_gen_inv[OF i this] have "gen_inv n w1" .
  then have "gen_inv n w2"
    unfolding c by (rule for_each_preserves[where P = "gen_inv n", rotated]) (rule connect_gen_inv)
  from add_simControl_ctl_inv[OF a this]
  have w: "ctl_inv w" "map_of (devices w) ''simControl'' = Some [n]"
    "controller_at n simWeather w" by blast+
  have o: "objs w0 = objs w" and d: "devices w0 = devices w"
    unfolding b buildContext_def
    by (simp_all add: for_each_allocate_objs for_each_allocate_devices)
  from w o d show ?thesis
    by (auto simp: ctl_inv_objs[OF o] controller_at_objs[OF o])
qed


text \<open>
  The tick of a controller in weather state 5: the grid part of the update leaves the
  weather state and the weather flag of the controller as they are, and the weather
  block stores the result of the weather step in the controller before it updates the
  inverters.
\<close>

lemma setter_keeps_controller:
  assumes p: "\<exists>m c. objs w self = Some m \<and> kind m = SimulationController c
      \<and> c_weatherState c = s \<and> c_simWeatherEnabled c = e"
    and o: "objs w r = Some mr"
    and f: "\<And>c. \<exists>c'. f (SimulationController c) = SimulationController c'
      \<and> c_weatherState c' = c_weatherState c \<and> c_simWeatherEnabled c' = c_simWeatherEnabled c"
  shows "\<exists>m c. objs (w\<lparr>objs := (objs w)(r \<mapsto> mr\<lparr>kind := f (kind mr)\<rparr>)\<rparr>) self = Some m
      \<and> kind m = SimulationController c \<and> c_weatherState c = s \<and> c_simWeatherEnabled c = e"
proof (cases "r = self")
  case False
  with p show ?thesis by simp
next
  case True
  from p o True obtain c where c: "kind mr = SimulationController c" "c_weatherState c = s"
    "c_simWeatherEnabled c = e" by auto
  from f[of c] obtain c' where "f (SimulationController c) = SimulationController c'"
    "c_weatherState c' = c_weatherState c" "c_simWeatherEnabled c' = c_simWeatherEnabled c"
    by blast
  with c True show ?thesis by simp
qed

lemma SimulationController_grid_state:
  "hoare (\<lambda>w. \<exists>m c. objs w self = Some m \<and> kind m = SimulationController c
              \<and> c_weatherState c = s \<and> c_simWeatherEnabled c = e)
     (SimulationController_grid self mm mainBreaker checkMeter)
     (\<lambda>w. \<exists>m c. objs w self = Some m \<and> kind m = SimulationController c
              \<and> c_weatherState c = s \<and> c_simWeatherEnabled c = e)"
proof -
  let ?I = "\<lambda>w. \<exists>m c. objs w self = Some m \<and> kind m = SimulationController c
              \<and> c_weatherState c = s \<and> c_simWeatherEnabled c = e"
  have r: "hoare ?I (with_randint a b k) ?I" if "\<And>d. hoare ?I (k d) ?I" for a b k
    by (rule hoare_with_randint[OF that]) simp
  have mk: "hoare ?I (modify_kind f r) ?I"
    if "\<And>c. \<exists>c'. f (SimulationController c) = SimulationController c'
      \<and> c_weatherState c' = c_weatherState c \<and> c_simWeatherEnabled c' = c_simWeatherEnabled c"
    for f r
  proof (rule hoare_modify_kind)
    fix w m
    assume "?I w" "objs w r = Some m"
    then show "?I (w\<lparr>objs := (objs w)(r \<mapsto> m\<lparr>kind := f (kind m)\<rparr>)\<rparr>)"
      using that by (rule setter_keeps_controller)
  qed simp
  show ?thesis
    unfolding SimulationController_grid_def Let_def set_voltages_def
    by (intro hoare_inv_rules r mk if_split[where P = "\<lambda>f. hoare ?I f ?I", THEN iffD2]
        conjI impI)
      (simp_all add: clear_voltageStepCommand_def)
qed


lemma SimulationController_weather_night:
  assumes o: "objs w self = Some ms" and k: "kind ms = SimulationController c"
    and en: "c_simWeatherEnabled c" and st: "c_weatherState c = 5"
    and ni: "\<And>invs. map_of (connections m) ''inverters'' = Some invs \<Longrightarrow> self \<notin> set invs"
  shows "\<exists>m' c'. objs (snd (SimulationController_weather self m w)) self = Some m'
    \<and> kind m' = SimulationController c' \<and> c_weatherState c' = 0 \<and> c_irradiance c' = 0"
proof -
  let ?N = "\<lambda>x. \<exists>m' c'. objs x self = Some m' \<and> kind m' = SimulationController c'
    \<and> c_weatherState c' = 0 \<and> c_irradiance c' = 0"
  obtain c' w' where ws: "weather_step c w = (c', w')" by (cases "weather_step c w")
  from st have "c_weatherState c = 4 \<or> c_weatherState c = 5" by simp
  from weather_step_night[OF this, of w] ws
  have c': "c_weatherState c' = 0" "c_irradiance c' = 0" by simp_all
  from weather_step_world[of c w] ws obtain f where w': "w' = w\<lparr>rnd := f\<rparr>" by auto
  let ?w2 = "w'\<lparr>objs := (objs w')(self \<mapsto> ms\<lparr>kind := store_weather c' (kind ms)\<rparr>)\<rparr>"
  have e: "SimulationController_weather self m w =
      with_inverters m (for_each (push_irradiance self)) ?w2"
    using o k en ws w'
    by (simp add: SimulationController_weather_def with_self_def seq_def modify_kind_def)
  have n2: "?N ?w2" using k c' by (simp add: store_weather_def)
  have push: "hoare ?N (push_irradiance self i) ?N" if "i \<noteq> self" for i
    unfolding push_irradiance_def Let_def
  proof (rule hoare_with_self_inv)
    fix cc
    show "hoare ?N (with_randint (- 25) 25
                (\<lambda>d. modify_kind
                      (set_irradiance
                        (if c_irradiance cc + real_of_int d < 0 then 0
                         else c_irradiance cc + real_of_int d))
                      i)) ?N"
    proof (rule hoare_with_randint[where P' = ?N])
      fix d
      show "hoare ?N (modify_kind (set_irradiance
                        (if c_irradiance cc + real_of_int d < 0 then 0
                         else c_irradiance cc + real_of_int d)) i) ?N"
        by (rule hoare_modify_kind) (use that in simp_all)
    qed simp
  qed
  have h: "hoare ?N (with_inverters m (for_each (push_irradiance self))) ?N"
  proof (rule hoare_with_inverters)
    fix invs
    assume "map_of (connections m) ''inverters'' = Some invs"
    from ni[OF this] have "\<And>i. i \<in> set invs \<Longrightarrow> i \<noteq> self" by auto
    then show "hoare ?N (for_each (push_irradiance self) invs) ?N"
      by (intro hoare_for_each push)
  qed simp
  show ?thesis unfolding e by (rule hoareD[OF h n2])
qed

lemma SimulationController_update_night:
  assumes o: "objs w self = Some m" and k: "kind m = SimulationController c"
    and en: "c_simWeatherEnabled c" and st: "c_weatherState c = 5"
    and ni: "\<And>invs. map_of (connections m) ''inverters'' = Some invs \<Longrightarrow> self \<notin> set invs"
    and ret: "fst (update self w) = None"
  shows "\<exists>m' c'. objs (snd (update self w)) self = Some m'
    \<and> kind m' = SimulationController c' \<and> c_weatherState c' = 0 \<and> c_irradiance c' = 0"
proof -
  have u: "update self w = SimulationController_update self m w"
    using o k by (simp add: update_def)
  from ret u obtain mainBreaker where mb: "index0 (connections m) ''breakers'' = Inr mainBreaker"
    by (cases "index0 (connections m) ''breakers''")
      (auto simp: SimulationController_update_def)
  from ret u mb obtain checkMeter where cm: "index0 (connections m) ''meters'' = Inr checkMeter"
    by (cases "index0 (connections m) ''meters''")
      (auto simp: SimulationController_update_def)
  obtain e1 w1 where g: "SimulationController_grid self m mainBreaker checkMeter w = (e1, w1)"
    by (cases "SimulationController_grid self m mainBreaker checkMeter w")
  obtain e2 w2 where v: "SimulationController_weather self m w1 = (e2, w2)"
    by (cases "SimulationController_weather self m w1")
  from ret u mb cm g have e1: "e1 = None"
    by (cases e1) (auto simp: SimulationController_update_def seq_def)
  from ret u mb cm g v e1 have e2: "e2 = None"
    by (cases e2) (auto simp: SimulationController_update_def seq_def)
  have r: "snd (update self w) = snd (writeModbus self w2)"
    using u mb cm g v e1 e2 by (simp add: SimulationController_update_def seq_def)
  from hoareD[OF SimulationController_grid_state[of self 5 True m mainBreaker checkMeter], of w]
    o k en st g
  obtain m1 c1 where m1: "objs w1 self = Some m1" "kind m1 = SimulationController c1"
    "c_weatherState c1 = 5" "c_simWeatherEnabled c1" by auto
  from SimulationController_weather_night[OF m1(1,2,4,3), of m, OF ni] v
  have "\<exists>m' c'. objs w2 self = Some m'
    \<and> kind m' = SimulationController c' \<and> c_weatherState c' = 0 \<and> c_irradiance c' = 0"
    by simp
  then show ?thesis unfolding r by (simp add: writeModbus_objs)
qed


lemmas controller_defs = SimulationController_update_def SimulationController_grid_def
  SimulationController_weather_def SimulationController_inputs_def index0_def with_self_def
  with_inverters_def with_attr_def with_sum_def with_randint_def randint_def read_attr_def
  modify_kind_def set_voltages_def push_irradiance_def store_weather_def
  clear_voltageStepCommand_def Let_def

lemma small_plant_night:
  "(case Simulator_init small_plant True (\<lambda>n. 0) of
      Inl e \<Rightarrow> False
    | Inr w0 \<Rightarrow>
        map_of (devices w0) ''simControl'' = Some [4]
        \<and> objs (snd (modify_kind (set_weatherState 5) 4 w0)) 4 =
            Some \<lparr> slaveId = 4, name = ''simControl'', moduleGroup = ''Modules'',
                   connections = [(''inverters'', [1]), (''meters'', [3]), (''breakers'', [2])],
                   config = \<lparr> cfg_name = None, cfg_connections = None \<rparr>,
                   kind = SimulationController
                     (SimulationController_init\<lparr>c_simWeatherEnabled := True,
                        c_weatherState := 5\<rparr>) \<rparr>
        \<and> fst (update 4 (snd (modify_kind (set_weatherState 5) 4 w0))) = None)"
  by (simp add: init_defs small_plant_def update_defs controller_defs set_weatherState_def
      weather_step_def weather_dawn_def weather_plateau_def weather_dusk_def weather_night_def)


text \<open>
  Claim C8. From the state the constructor builds (the controller with its default
  parameters and the weather flag as given, in particular enabled), after any number of
  passes of the loop and for any source of random draws, the controller is still there
  with its flag, its irradiance is within \<open>[0, 1000]\<close> and it is not one of its own
  inverters; 10,000 ticks are an instance. Whenever a controller with the weather flag
  set, which is not one of its own inverters, holds weather state 5, the block "Run
  weather sim if enabled" leaves it in state 0 with irradiance zero, and so does every
  tick of the controller that returns; the weather step itself takes state 5 to state 0
  with irradiance zero.
\<close>

theorem weather_bounds:
  "(Simulator_init cfg simWeather rs = Inr w0 \<longrightarrow>
      (\<exists>r m c. map_of (devices w0) ''simControl'' = Some [r]
         \<and> objs (run n w0) r = Some m \<and> kind m = SimulationController c
         \<and> c_simWeatherEnabled c = simWeather
         \<and> 0 \<le> c_irradiance c \<and> c_irradiance c \<le> 1000
         \<and> (\<forall>invs. map_of (connections m) ''inverters'' = Some invs \<longrightarrow> r \<notin> set invs)))
   \<and> (objs w self = Some m5 \<longrightarrow> kind m5 = SimulationController c5 \<longrightarrow>
        c_simWeatherEnabled c5 \<longrightarrow> c_weatherState c5 = 5 \<longrightarrow>
        (\<forall>invs. map_of (connections m5) ''inverters'' = Some invs \<longrightarrow> self \<notin> set invs) \<longrightarrow>
        (\<exists>m' c'. objs (snd (SimulationController_weather self m5 w)) self = Some m'
           \<and> kind m' = SimulationController c' \<and> c_weatherState c' = 0 \<and> c_irradiance c' = 0)
        \<and> (fst (update self w) = None \<longrightarrow>
             (\<exists>m' c'. objs (snd (update self w)) self = Some m'
                \<and> kind m' = SimulationController c' \<and> c_weatherState c' = 0
                \<and> c_irradiance c' = 0)))
   \<and> (c_weatherState c = 5 \<longrightarrow>
        c_weatherState (fst (weather_step c w')) = 0
        \<and> c_irradiance (fst (weather_step c w')) = 0)"
proof (intro conjI impI)
  assume "Simulator_init cfg simWeather rs = Inr w0"
  from Simulator_init_ctl_inv[OF this] obtain r where
    d: "map_of (devices w0) ''simControl'' = Some [r]" and i: "ctl_inv w0"
    and c: "controller_at r simWeather w0" by blast
  from run_ctl_inv[OF i c, of n] obtain m x where
    o: "objs (run n w0) r = Some m" and k: "ctl_of (kind m) = Some (x, simWeather)"
    and ri: "ctl_inv (run n w0)"
    by (auto simp: controller_at_def)
  from k obtain c' where c': "kind m = SimulationController c'" "c_irradiance c' = x"
    "c_simWeatherEnabled c' = simWeather"
    by (cases "kind m") auto
  from ri o k have "0 \<le> x \<and> x \<le> 1000" unfolding ctl_inv_def by blast
  moreover have "\<forall>invs. map_of (connections m) ''inverters'' = Some invs \<longrightarrow> r \<notin> set invs"
  proof (intro allI impI notI)
    fix invs
    assume "map_of (connections m) ''inverters'' = Some invs" "r \<in> set invs"
    with ri o k have "ctl_of (kind m) = None" unfolding ctl_inv_def by blast
    with k show False by simp
  qed
  ultimately show "\<exists>r m c. map_of (devices w0) ''simControl'' = Some [r]
         \<and> objs (run n w0) r = Some m \<and> kind m = SimulationController c
         \<and> c_simWeatherEnabled c = simWeather
         \<and> 0 \<le> c_irradiance c \<and> c_irradiance c \<le> 1000
         \<and> (\<forall>invs. map_of (connections m) ''inverters'' = Some invs \<longrightarrow> r \<notin> set invs)"
    using d o c' by blast
next
  assume a: "objs w self = Some m5" "kind m5 = SimulationController c5"
    "c_simWeatherEnabled c5" "c_weatherState c5 = 5"
    and ni: "\<forall>invs. map_of (connections m5) ''inverters'' = Some invs \<longrightarrow> self \<notin> set invs"
  from ni have ni': "\<And>invs. map_of (connections m5) ''inverters'' = Some invs \<Longrightarrow>
      self \<notin> set invs" by blast
  show "\<exists>m' c'. objs (snd (SimulationController_weather self m5 w)) self = Some m'
           \<and> kind m' = SimulationController c' \<and> c_weatherState c' = 0 \<and> c_irradiance c' = 0"
    by (rule SimulationController_weather_night[OF a ni'])
  assume "fst (update self w) = None"
  with a ni' show "\<exists>m' c'. objs (snd (update self w)) self = Some m'
                \<and> kind m' = SimulationController c' \<and> c_weatherState c' = 0
                \<and> c_irradiance c' = 0"
    by (rule SimulationController_update_night)
next
  assume "c_weatherState c = 5"
  then have "c_weatherState c = 4 \<or> c_weatherState c = 5" by simp
  from weather_step_night[OF this, of w']
  show "c_weatherState (fst (weather_step c w')) = 0"
    and "c_irradiance (fst (weather_step c w')) = 0" by simp_all
qed

theorem weather_bounds_witness:
  "(case Simulator_init small_plant True (\<lambda>n. 0) of
      Inl e \<Rightarrow> False
    | Inr w0 \<Rightarrow>
        map_of (devices w0) ''simControl'' = Some [4]
        \<and> (\<exists>m c. objs (run 10000 w0) 4 = Some m \<and> kind m = SimulationController c
              \<and> c_simWeatherEnabled c \<and> 0 \<le> c_irradiance c \<and> c_irradiance c \<le> 1000)
        \<and> map_option kind (objs (snd (modify_kind (set_weatherState 5) 4 w0)) 4) =
            Some (SimulationController
                    (SimulationController_init\<lparr>c_simWeatherEnabled := True,
                       c_weatherState := 5\<rparr>))
        \<and> fst (update 4 (snd (modify_kind (set_weatherState 5) 4 w0))) = None
        \<and> (\<exists>m' c'. objs (snd (update 4 (snd (modify_kind (set_weatherState 5) 4 w0)))) 4
                     = Some m'
              \<and> kind m' = SimulationController c' \<and> c_weatherState c' = 0
              \<and> c_irradiance c' = 0)
        \<and> (\<exists>m' c'. objs (snd (SimulationController_weather 4
                       (the (objs (snd (modify_kind (set_weatherState 5) 4 w0)) 4))
                       (snd (modify_kind (set_weatherState 5) 4 w0)))) 4 = Some m'
              \<and> kind m' = SimulationController c' \<and> c_weatherState c' = 0
              \<and> c_irradiance c' = 0))
   \<and> c_weatherState (SimulationController_init\<lparr>c_weatherState := 5\<rparr>) = 5
   \<and> c_weatherState
        (fst (weather_step (SimulationController_init\<lparr>c_weatherState := 5\<rparr>)
               (new_world (\<lambda>n. 0)))) = 0
   \<and> c_irradiance
        (fst (weather_step (SimulationController_init\<lparr>c_weatherState := 5\<rparr>)
               (new_world (\<lambda>n. 0)))) = 0"
proof -
  define w0 where "w0 = (case Simulator_init small_plant True (\<lambda>n. 0) of
      Inr w \<Rightarrow> w | Inl e \<Rightarrow> new_world (\<lambda>n. 0))"
  define w5 where "w5 = snd (modify_kind (set_weatherState 5) 4 w0)"
  define m5 where "m5 = \<lparr> slaveId = 4, name = ''simControl'', moduleGroup = ''Modules'',
                   connections = [(''inverters'', [1]), (''meters'', [3]), (''breakers'', [2])],
                   config = \<lparr> cfg_name = None, cfg_connections = None \<rparr>,
                   kind = SimulationController
                     (SimulationController_init\<lparr>c_simWeatherEnabled := True,
                        c_weatherState := 5\<rparr>) \<rparr>"
  have g: "Simulator_init small_plant True (\<lambda>n. 0) = Inr w0"
    unfolding w0_def by (simp add: init_defs small_plant_def)
  from small_plant_night have d: "map_of (devices w0) ''simControl'' = Some [4]"
    and o5: "objs w5 4 = Some m5" and ret: "fst (update 4 w5) = None"
    unfolding g w5_def m5_def by simp_all
  have k5: "kind m5 = SimulationController
      (SimulationController_init\<lparr>c_simWeatherEnabled := True, c_weatherState := 5\<rparr>)"
    and ni: "\<forall>invs. map_of (connections m5) ''inverters'' = Some invs \<longrightarrow> 4 \<notin> set invs"
    by (simp_all add: m5_def)
  have s: "c_weatherState (SimulationController_init\<lparr>c_weatherState := 5\<rparr>) = 5" by simp
  note t = weather_bounds[of small_plant True "\<lambda>n. 0" w0 10000 w5 4 m5
      "SimulationController_init\<lparr>c_simWeatherEnabled := True, c_weatherState := 5\<rparr>"
      "SimulationController_init\<lparr>c_weatherState := 5\<rparr>" "new_world (\<lambda>n. 0)"]
  from t g obtain r m c where "map_of (devices w0) ''simControl'' = Some [r]"
    "objs (run 10000 w0) r = Some m" "kind m = SimulationController c"
    "c_simWeatherEnabled c" "0 \<le> c_irradiance c" "c_irradiance c \<le> 1000"
    by blast
  with d have 1: "\<exists>m c. objs (run 10000 w0) 4 = Some m \<and> kind m = SimulationController c
              \<and> c_simWeatherEnabled c \<and> 0 \<le> c_irradiance c \<and> c_irradiance c \<le> 1000"
    by auto
  from t o5 k5 ni ret have 2: "\<exists>m' c'. objs (snd (update 4 w5)) 4 = Some m'
      \<and> kind m' = SimulationController c' \<and> c_weatherState c' = 0 \<and> c_irradiance c' = 0"
    and 3: "\<exists>m' c'. objs (snd (SimulationController_weather 4 m5 w5)) 4 = Some m'
      \<and> kind m' = SimulationController c' \<and> c_weatherState c' = 0 \<and> c_irradiance c' = 0"
    by simp_all
  from t s have 4: "c_weatherState
        (fst (weather_step (SimulationController_init\<lparr>c_weatherState := 5\<rparr>)
               (new_world (\<lambda>n. 0)))) = 0"
    "c_irradiance
        (fst (weather_step (SimulationController_init\<lparr>c_weatherState := 5\<rparr>)
               (new_world (\<lambda>n. 0)))) = 0"
    by blast+
  have m5': "the (objs w5 4) = m5" using o5 by simp
  from d 1 2 3 4 o5 k5 ret show ?thesis
    unfolding g by (simp add: w5_def[symmetric] m5')
qed

section \<open>Aggregation in the main breaker\<close>

lemma sum_attr_Inr:
  "(\<And>r. r \<in> set rs \<Longrightarrow> read_attr g r w = Inr (f r)) \<Longrightarrow>
   sum_attr g acc rs w = Inr (acc + sum_list (map f rs))"
proof (induction rs arbitrary: acc)
  case Nil
  show ?case by simp
next
  case (Cons r rs)
  have "read_attr g r w = Inr (f r)" using Cons.prems by simp
  moreover have "sum_attr g (acc + f r) rs w = Inr (acc + f r + sum_list (map f rs))"
    using Cons.prems by (intro Cons.IH) simp
  ultimately show ?case by (simp add: add.assoc)
qed

lemma read_attr_other:
  "r \<noteq> self \<Longrightarrow> read_attr g r (w\<lparr>objs := (objs w)(self \<mapsto> x)\<rparr>) = read_attr g r w"
  by (simp add: read_attr_def)

text \<open>
  What one update of a main breaker computes: the backing powers are the sums of the
  feeder breakers' power readouts, and each backing voltage is the sum of the
  transformers' voltage readouts, with no division by their number.
\<close>

lemma Breaker_update_main_breaker:
  assumes o: "objs w self = Some m" and k: "kind m = Breaker b0"
    and g: "moduleGroup m = ''mainBreakers''"
    and fb: "map_of (connections m) ''feederBreakers'' = Some bs" and ne: "bs \<noteq> []"
    and tr: "map_of (connections m) ''transformers'' = Some ts"
    and nb: "self \<notin> set bs" and nt: "self \<notin> set ts"
    and rb: "\<And>r. r \<in> set bs \<Longrightarrow>
      read_attr realPower_of r w = Inr (P r) \<and> read_attr reactivePower_of r w = Inr (Q r)"
    and rt: "\<And>r. r \<in> set ts \<Longrightarrow>
      read_attr voltageL1_of r w = Inr (V1 r) \<and> read_attr voltageL2_of r w = Inr (V2 r)
      \<and> read_attr voltageL3_of r w = Inr (V3 r)"
  shows "\<exists>m' b'. objs (snd (update self w)) self = Some m' \<and> kind m' = Breaker b'
    \<and> b_priv_realPower b' = sum_list (map P bs)
    \<and> b_priv_reactivePower b' = sum_list (map Q bs)
    \<and> b_priv_voltageL1 b' = sum_list (map V1 ts)
    \<and> b_priv_voltageL2 b' = sum_list (map V2 ts)
    \<and> b_priv_voltageL3 b' = sum_list (map V3 ts)"
proof -
  define b where "b = b0\<lparr> b_breakers := Some bs,
                  b_inverters := map_of (connections m) ''inverters'',
                  b_transformers := Some ts \<rparr>"
  define w1 where "w1 = w\<lparr>objs := (objs w)(self \<mapsto> m\<lparr>kind := Breaker b\<rparr>)\<rparr>"
  have u: "update self w = Breaker_main self m b 0 0 0 0 0 w1"
    using o k g fb tr by (simp add: update_def Breaker_update_def Let_def b_def w1_def)
  have ob: "\<And>r. r \<in> set bs \<Longrightarrow> r \<noteq> self" using nb by auto
  have ot: "\<And>r. r \<in> set ts \<Longrightarrow> r \<noteq> self" using nt by auto
  have rw: "\<And>r g. r \<noteq> self \<Longrightarrow> read_attr g r w1 = read_attr g r w"
    by (simp add: w1_def read_attr_def)
  have s1: "sum_attr realPower_of 0 bs w1 = Inr (0 + sum_list (map P bs))"
    by (intro sum_attr_Inr) (simp add: rw ob rb)
  have s2: "sum_attr reactivePower_of 0 bs w1 = Inr (0 + sum_list (map Q bs))"
    by (intro sum_attr_Inr) (simp add: rw ob rb)
  have s3: "sum_attr voltageL1_of 0 ts w1 = Inr (0 + sum_list (map V1 ts))"
    by (intro sum_attr_Inr) (simp add: rw ot rt)
  have s4: "sum_attr voltageL2_of 0 ts w1 = Inr (0 + sum_list (map V2 ts))"
    by (intro sum_attr_Inr) (simp add: rw ot rt)
  have s5: "sum_attr voltageL3_of 0 ts w1 = Inr (0 + sum_list (map V3 ts))"
    by (intro sum_attr_Inr) (simp add: rw ot rt)
  obtain x xs where bs: "bs = x # xs" using ne by (cases bs) auto
  have bb: "b_breakers b = Some (x # xs)" "b_transformers b = Some ts"
    by (simp_all add: b_def bs)
  have m: "Breaker_main self m b 0 0 0 0 0 w1 =
      Breaker_finish self (sum_list (map P bs)) (sum_list (map Q bs))
        (sum_list (map V1 ts)) (sum_list (map V2 ts)) (sum_list (map V3 ts)) w1"
    using g bb s1 s2 s3 s4 s5 by (simp add: Breaker_main_def with_sum_def bs)
  have o1: "objs w1 self = Some (m\<lparr>kind := Breaker b\<rparr>)" by (simp add: w1_def)
  show ?thesis
    unfolding u m Breaker_finish_def seq_def
    using o1 by (simp add: modify_kind_def writeModbus_objs Breaker_assign_def)
qed

lemmas transformer_defs = Transformer_update_def Transformer_assign_def Transformer_inputs_def
  Transformer_realPower_def Transformer_reactivePower_def Transformer_voltageL1_def
  Transformer_voltageL2_def Transformer_voltageL3_def

text \<open>
  Claim C3 on \<open>plant_two_transformers\<close>, the inverter's irradiance set to 950, after the
  updates of the inverter, the feeder breaker, both transformers and the main breaker.
  The main breaker's real power is 2000, the sum over its feeder breakers. Both
  transformers read 129.2 on phase 1, so their average is 129.2; the main breaker
  reads 258.4, their sum.
\<close>

theorem main_breaker_voltage_is_sum:
  "(case Simulator_init plant_two_transformers False (\<lambda>n. 0) of
      Inl e \<Rightarrow> False
    | Inr w0 \<Rightarrow>
        concat (map snd (devices w0)) = [1, 2, 3, 4, 5, 6, 7]
        \<and> map_option connections (objs w0 5)
            = Some [(''feederBreakers'', [2]), (''transformers'', [3, 4])]
        \<and> fst (for_each update [1, 2, 3, 4, 5] (snd (modify_kind (set_irradiance 950) 1 w0)))
            = None
        \<and> map (\<lambda>r. read_attr voltageL1_of r
              (snd (for_each update [1, 2, 3, 4, 5] (snd (modify_kind (set_irradiance 950) 1 w0)))))
            [3, 4, 5]
            = [Inr (646 / 5), Inr (646 / 5), Inr (1292 / 5)]
        \<and> map (\<lambda>r. read_attr realPower_of r
              (snd (for_each update [1, 2, 3, 4, 5] (snd (modify_kind (set_irradiance 950) 1 w0)))))
            [1, 2, 5]
            = [Inr 2000, Inr 2000, Inr 2000])"
  by (simp add: init_defs plant_two_transformers_def entry_def update_defs breaker_defs
      transformer_defs)

section \<open>Resolution of connections by generateDevices\<close>

text \<open>
  The second pass of \<open>generateDevices\<close> replaces the listed names of each input type by
  the devices of that group whose name is listed. \<open>resolve\<close> raises only when the input
  type is not a group (\<open>KeyError\<close>); a listed name that no device has is filtered out.
\<close>

lemma resolve_error: "resolve w cs = Inl e \<Longrightarrow> e = Py KeyError"
proof (induction cs)
  case Nil
  then show ?case by simp
next
  case (Cons c cs)
  then show ?case
    by (cases c) (auto split: option.splits sum.splits)
qed

lemma resolve_success:
  "(\<And>t ns. (t, ns) \<in> set cs \<Longrightarrow> t \<in> fst ` set (devices w)) \<Longrightarrow> \<exists>c. resolve w cs = Inr c"
proof (induction cs)
  case Nil
  show ?case by simp
next
  case (Cons c cs)
  obtain t ns where c: "c = (t, ns)" by (cases c)
  have "t \<in> fst ` set (devices w)" using Cons.prems[of t ns] c by simp
  then obtain ds where ds: "map_of (devices w) t = Some ds"
    by (metis map_of_eq_None_iff not_None_eq)
  have "\<exists>c. resolve w cs = Inr c"
  proof (rule Cons.IH)
    fix t' ns' assume "(t', ns') \<in> set cs"
    then have "(t', ns') \<in> set (c # cs)" by simp
    then show "t' \<in> fst ` set (devices w)" by (rule Cons.prems)
  qed
  then obtain c' where "resolve w cs = Inr c'" by auto
  with c ds show ?case by simp
qed

lemma resolve_resolved: "resolve w cs = Inr conns \<Longrightarrow> resolved w cs conns"
proof (induction cs arbitrary: conns)
  case Nil
  then show ?case by (simp add: resolved_def)
next
  case (Cons c cs)
  obtain t ns where c: "c = (t, ns)" by (cases c)
  from Cons.prems c obtain ds c' where ds: "map_of (devices w) t = Some ds"
    and r: "resolve w cs = Inr c'" and e: "conns = (t, filter (named_in w ns) ds) # c'"
    by (auto split: option.splits sum.splits)
  from Cons.IH[OF r] ds e c show ?case by (simp add: resolved_def)
qed

lemma resolve_cong:
  assumes "devices w' = devices w"
    and "\<And>x. map_option name (objs w' x) = map_option name (objs w x)"
  shows "resolve w' cs = resolve w cs"
proof -
  have n: "named_in w' ns = named_in w ns" for ns
  proof
    fix d
    from assms(2)[of d] show "named_in w' ns d = named_in w ns d"
      by (auto simp: named_in_def split: option.splits)
  qed
  show ?thesis
    by (induction cs) (auto simp: assms(1) n split: option.splits sum.splits)
qed

lemma resolved_cong:
  assumes "\<And>t ns. (t, ns) \<in> set cs \<Longrightarrow> map_of (devices w') t = map_of (devices w) t"
    and "\<And>t ns ds d. (t, ns) \<in> set cs \<Longrightarrow> map_of (devices w) t = Some ds \<Longrightarrow> d \<in> set ds \<Longrightarrow>
      map_option name (objs w' d) = map_option name (objs w d)"
    and "resolved w cs conns"
  shows "resolved w' cs conns"
  using assms
proof (induction cs arbitrary: conns)
  case Nil
  then show ?case by (simp add: resolved_def)
next
  case (Cons c cs)
  obtain t ns where c: "c = (t, ns)" by (cases c)
  from Cons.prems(3) c obtain ds rest where
    conns: "conns = (t, filter (named_in w ns) ds) # rest"
    and ds: "map_of (devices w) t = Some ds" and r: "resolved w cs rest"
    by (auto simp: resolved_def list_all2_Cons1)
  have r': "resolved w' cs rest"
  proof (rule Cons.IH[OF _ _ r])
    fix t' ns' assume "(t', ns') \<in> set cs"
    then have "(t', ns') \<in> set (c # cs)" by simp
    then show "map_of (devices w') t' = map_of (devices w) t'" by (rule Cons.prems(1))
  next
    fix t' ns' ds' d
    assume a: "(t', ns') \<in> set cs" "map_of (devices w) t' = Some ds'" "d \<in> set ds'"
    from a(1) have "(t', ns') \<in> set (c # cs)" by simp
    from Cons.prems(2)[OF this a(2,3)]
    show "map_option name (objs w' d) = map_option name (objs w d)" .
  qed
  have ds': "map_of (devices w') t = Some ds" using Cons.prems(1)[of t ns] c ds by simp
  have "filter (named_in w' ns) ds = filter (named_in w ns) ds"
  proof (rule filter_cong[OF refl])
    fix d assume "d \<in> set ds"
    from Cons.prems(2)[of t ns ds d] c ds this
    show "named_in w' ns d = named_in w ns d"
      by (auto simp: named_in_def split: option.splits)
  qed
  with conns ds' r' c show ?case by (simp add: resolved_def)
qed


lemma instantiate_error: "instantiate g ds n w = Inl e \<Longrightarrow> e = Py KeyError"
  by (induction ds arbitrary: n w) (auto split: option.splits)

lemma instantiate_success:
  "(ds \<noteq> [] \<longrightarrow> Simulator_modules g \<noteq> None) \<Longrightarrow> (\<And>d. d \<in> set ds \<Longrightarrow> cfg_name d \<noteq> None) \<Longrightarrow>
   \<exists>n' w'. instantiate g ds n w = Inr (n', w')"
proof (induction ds arbitrary: n w)
  case Nil
  show ?case by simp
next
  case (Cons d ds)
  from Cons.prems(1) obtain k where k: "Simulator_modules g = Some k" by auto
  from Cons.prems(2)[of d] obtain nm where nm: "cfg_name d = Some nm" by auto
  have "\<exists>n' w'. instantiate g ds (n + 1)
      (w\<lparr> objs := (objs w)(n \<mapsto>
                        \<lparr> slaveId = n, name = nm, moduleGroup = g,
                          connections = [], config = d, kind = k \<rparr>),
                      devices := AList.map_entry g (\<lambda>ds. ds @ [n]) (devices w) \<rparr>) = Inr (n', w')"
    using k Cons.prems(2) by (intro Cons.IH) auto
  with k nm show ?case by simp
qed

lemma instantiate_built:
  assumes "instantiate g ds n w = Inr (n', w')" "built K K' w" "g \<in> K"
    and "\<And>d cs t ns. d \<in> set ds \<Longrightarrow> cfg_connections d = Some cs \<Longrightarrow> (t, ns) \<in> set cs \<Longrightarrow>
      t \<in> K'"
  shows "built K K' w'"
  using assms
proof (induction ds arbitrary: n w)
  case Nil
  then show ?case by simp
next
  case (Cons d ds)
  from Cons.prems(1) obtain k nm where k: "Simulator_modules g = Some k"
    and nm: "cfg_name d = Some nm"
    by (auto split: option.splits)
  let ?m = "\<lparr> slaveId = n, name = nm, moduleGroup = g,
                          connections = [], config = d, kind = k \<rparr>"
  let ?w = "w\<lparr> objs := (objs w)(n \<mapsto> ?m),
                      devices := AList.map_entry g (\<lambda>ds. ds @ [n]) (devices w) \<rparr>"
  from Cons.prems(1) k nm have r: "instantiate g ds (n + 1) ?w = Inr (n', w')" by simp
  from Cons.prems(2) have keys: "fst ` set (devices w) = K"
    and refs: "\<And>g ds d. map_of (devices w) g = Some ds \<Longrightarrow> d \<in> set ds \<Longrightarrow> objs w d \<noteq> None"
    and listed: "\<And>r. objs w r \<noteq> None \<Longrightarrow> \<exists>g ds. map_of (devices w) g = Some ds \<and> r \<in> set ds"
    and types: "\<And>r m cs t ns. objs w r = Some m \<Longrightarrow> cfg_connections (config m) = Some cs \<Longrightarrow>
            (t, ns) \<in> set cs \<Longrightarrow> t \<in> K'"
    unfolding built_def by blast+
  from Cons.prems(3) keys obtain old where old: "map_of (devices w) g = Some old"
    by (metis map_of_eq_None_iff not_None_eq)
  have b: "built K K' ?w"
    unfolding built_def
  proof (intro conjI allI impI)
    show "distinct (map fst (devices ?w))"
      using Cons.prems(2) by (simp add: built_def distinct_map_entry)
  next
    show "fst ` set (devices ?w) = K" using keys by (simp add: dom_map_entry)
  next
    fix g' ds' d'
    assume "map_of (devices ?w) g' = Some ds'" "d' \<in> set ds'"
    then show "objs ?w d' \<noteq> None"
      using refs[of g' ds' d'] refs[of g old d'] old
      by (auto simp: map_of_map_entry split: if_splits option.splits)
  next
    fix r assume o: "objs ?w r \<noteq> None"
    show "\<exists>g ds. map_of (devices ?w) g = Some ds \<and> r \<in> set ds"
    proof (cases "r = n")
      case True
      have "map_of (devices ?w) g = Some (old @ [n]) \<and> r \<in> set (old @ [n])"
        using old True by (simp add: map_of_map_entry)
      then show ?thesis by blast
    next
      case False
      with o have "objs w r \<noteq> None" by simp
      from listed[OF this] obtain g' ds' where l: "map_of (devices w) g' = Some ds'" "r \<in> set ds'"
        by blast
      show ?thesis
      proof (cases "g' = g")
        case True
        with l old have "map_of (devices ?w) g = Some (ds' @ [n]) \<and> r \<in> set (ds' @ [n])"
          by (simp add: map_of_map_entry)
        then show ?thesis by blast
      next
        case False
        with l have "map_of (devices ?w) g' = Some ds' \<and> r \<in> set ds'"
          by (simp add: map_of_map_entry)
        then show ?thesis by blast
      qed
    qed
  next
    fix r m cs t ns
    assume "objs ?w r = Some m" "cfg_connections (config m) = Some cs" "(t, ns) \<in> set cs"
    then show "t \<in> K'"
      using types[of r m cs t ns] Cons.prems(4)[of d cs t ns]
      by (cases "r = n") auto
  qed
  show ?case
  proof (rule Cons.IH[OF r b Cons.prems(3)])
    fix d' cs t ns
    assume "d' \<in> set ds" "cfg_connections d' = Some cs" "(t, ns) \<in> set cs"
    then show "t \<in> K'" using Cons.prems(4)[of d' cs t ns] by simp
  qed
qed


lemma instantiate_groups_error: "instantiate_groups cfg n w = Inl e \<Longrightarrow> e = Py KeyError"
proof (induction cfg arbitrary: n w)
  case Nil
  then show ?case by simp
next
  case (Cons gd cfg)
  obtain g ds where gd: "gd = (g, ds)" by (cases gd)
  show ?case
  proof (cases "instantiate g ds n (w\<lparr>devices := AList.update g [] (devices w)\<rparr>)")
    case (Inl e')
    with Cons.prems gd instantiate_error[OF Inl] show ?thesis by simp
  next
    case (Inr p)
    obtain n1 w1 where "p = (n1, w1)" by (cases p)
    with Inr Cons.prems gd Cons.IH[of n1 w1] show ?thesis by simp
  qed
qed

lemma instantiate_groups_success:
  assumes "\<And>g ds. (g, ds) \<in> set cfg \<Longrightarrow> (ds \<noteq> [] \<longrightarrow> Simulator_modules g \<noteq> None)"
    and "\<And>g ds d. (g, ds) \<in> set cfg \<Longrightarrow> d \<in> set ds \<Longrightarrow> cfg_name d \<noteq> None"
  shows "\<exists>n' w'. instantiate_groups cfg n w = Inr (n', w')"
  using assms
proof (induction cfg arbitrary: n w)
  case Nil
  show ?case by simp
next
  case (Cons gd cfg)
  obtain g ds where gd: "gd = (g, ds)" by (cases gd)
  have "\<exists>n1 w1. instantiate g ds n (w\<lparr>devices := AList.update g [] (devices w)\<rparr>) = Inr (n1, w1)"
  proof (rule instantiate_success)
    show "ds \<noteq> [] \<longrightarrow> Simulator_modules g \<noteq> None" using Cons.prems(1)[of g ds] gd by simp
  next
    fix d assume "d \<in> set ds"
    then show "cfg_name d \<noteq> None" using Cons.prems(2)[of g ds d] gd by simp
  qed
  then obtain n1 w1 where
    i: "instantiate g ds n (w\<lparr>devices := AList.update g [] (devices w)\<rparr>) = Inr (n1, w1)"
    by blast
  have "\<exists>n' w'. instantiate_groups cfg n1 w1 = Inr (n', w')"
  proof (rule Cons.IH)
    fix g' ds' assume "(g', ds') \<in> set cfg"
    then show "ds' \<noteq> [] \<longrightarrow> Simulator_modules g' \<noteq> None" using Cons.prems(1)[of g' ds'] by simp
  next
    fix g' ds' d assume "(g', ds') \<in> set cfg" "d \<in> set ds'"
    then show "cfg_name d \<noteq> None" using Cons.prems(2)[of g' ds' d] by simp
  qed
  with i gd show ?case by simp
qed

lemma update_empty_built:
  assumes "built K K' w" "map_of (devices w) g = None \<or> map_of (devices w) g = Some []"
  shows "built (insert g K) K' (w\<lparr>devices := AList.update g [] (devices w)\<rparr>)"
proof -
  from assms(1) have keys: "fst ` set (devices w) = K"
    and refs: "\<And>g ds d. map_of (devices w) g = Some ds \<Longrightarrow> d \<in> set ds \<Longrightarrow> objs w d \<noteq> None"
    and listed: "\<And>r. objs w r \<noteq> None \<Longrightarrow> \<exists>g ds. map_of (devices w) g = Some ds \<and> r \<in> set ds"
    and types: "\<And>r m cs t ns. objs w r = Some m \<Longrightarrow> cfg_connections (config m) = Some cs \<Longrightarrow>
            (t, ns) \<in> set cs \<Longrightarrow> t \<in> K'"
    unfolding built_def by blast+
  show ?thesis
    unfolding built_def
  proof (intro conjI allI impI)
    show "distinct (map fst (devices (w\<lparr>devices := AList.update g [] (devices w)\<rparr>)))"
      using assms(1) by (simp add: built_def distinct_update)
  next
    show "fst ` set (devices (w\<lparr>devices := AList.update g [] (devices w)\<rparr>)) = insert g K"
      using keys by (simp add: dom_update)
  next
    fix g' ds d
    assume "map_of (devices (w\<lparr>devices := AList.update g [] (devices w)\<rparr>)) g' = Some ds"
      "d \<in> set ds"
    then show "objs (w\<lparr>devices := AList.update g [] (devices w)\<rparr>) d \<noteq> None"
      using refs[of g' ds d] by (auto simp: update_conv' split: if_splits)
  next
    fix r assume "objs (w\<lparr>devices := AList.update g [] (devices w)\<rparr>) r \<noteq> None"
    then have "objs w r \<noteq> None" by simp
    from listed[OF this] obtain g' ds where l: "map_of (devices w) g' = Some ds" "r \<in> set ds"
      by blast
    with assms(2) have "g' \<noteq> g" by auto
    with l have "map_of (devices (w\<lparr>devices := AList.update g [] (devices w)\<rparr>)) g' = Some ds
        \<and> r \<in> set ds"
      by (simp add: update_conv')
    then show "\<exists>g' ds. map_of (devices (w\<lparr>devices := AList.update g [] (devices w)\<rparr>)) g'
        = Some ds \<and> r \<in> set ds" by blast
  next
    fix r m cs t ns
    assume "objs (w\<lparr>devices := AList.update g [] (devices w)\<rparr>) r = Some m"
      "cfg_connections (config m) = Some cs" "(t, ns) \<in> set cs"
    then show "t \<in> K'" using types[of r m cs t ns] by simp
  qed
qed


lemma instantiate_groups_built:
  assumes "instantiate_groups cfg n w = Inr (n', w')" "built K K' w"
    and "distinct (map fst cfg)" "fst ` set cfg \<inter> K = {}"
    and "\<And>g ds d cs t ns. (g, ds) \<in> set cfg \<Longrightarrow> d \<in> set ds \<Longrightarrow>
      cfg_connections d = Some cs \<Longrightarrow> (t, ns) \<in> set cs \<Longrightarrow> t \<in> K'"
  shows "built (K \<union> fst ` set cfg) K' w'"
  using assms
proof (induction cfg arbitrary: n w K)
  case Nil
  then show ?case by simp
next
  case (Cons gd cfg)
  obtain g ds where gd: "gd = (g, ds)" by (cases gd)
  from Cons.prems(1) gd obtain n1 w1 where
    i: "instantiate g ds n (w\<lparr>devices := AList.update g [] (devices w)\<rparr>) = Inr (n1, w1)"
    and r: "instantiate_groups cfg n1 w1 = Inr (n', w')"
    by (auto split: sum.splits)
  have gK: "g \<notin> K" using Cons.prems(4) gd by auto
  have keys: "fst ` set (devices w) = K" using Cons.prems(2) by (simp add: built_def)
  have "map_of (devices w) g = None"
    using gK keys by (simp add: map_of_eq_None_iff)
  then have b0: "built (insert g K) K' (w\<lparr>devices := AList.update g [] (devices w)\<rparr>)"
    by (intro update_empty_built[OF Cons.prems(2)]) simp
  have b1: "built (insert g K) K' w1"
  proof (rule instantiate_built[OF i b0])
    show "g \<in> insert g K" by simp
  next
    fix d cs t ns
    assume "d \<in> set ds" "cfg_connections d = Some cs" "(t, ns) \<in> set cs"
    then show "t \<in> K'" using Cons.prems(5)[of g ds d cs t ns] gd by simp
  qed
  have "built (insert g K \<union> fst ` set cfg) K' w'"
  proof (rule Cons.IH[OF r b1])
    show "distinct (map fst cfg)" using Cons.prems(3) by simp
    show "fst ` set cfg \<inter> insert g K = {}"
      using Cons.prems(3,4) gd by auto
  next
    fix g' ds' d cs t ns
    assume "(g', ds') \<in> set cfg" "d \<in> set ds'" "cfg_connections d = Some cs" "(t, ns) \<in> set cs"
    then show "t \<in> K'" using Cons.prems(5)[of g' ds' d cs t ns] by simp
  qed
  then show ?case using gd by simp
qed

lemma connect_cases:
  "snd (connect r w) = w
   \<or> (\<exists>m cs conns. objs w r = Some m \<and> cfg_connections (config m) = Some cs \<and> cs \<noteq> []
        \<and> resolve w cs = Inr conns \<and> fst (connect r w) = None
        \<and> snd (connect r w) = w\<lparr>objs := (objs w)(r \<mapsto> m\<lparr>connections := conns\<rparr>)\<rparr>)"
  by (auto simp: connect_def split: option.splits list.splits sum.splits)

lemma connect_devices: "devices (snd (connect r w)) = devices w"
  using connect_cases[of r w] by auto

lemma connect_names:
  "map_option (\<lambda>m. (name m, config m)) (objs (snd (connect r w)) x)
   = map_option (\<lambda>m. (name m, config m)) (objs w x)"
  using connect_cases[of r w] by auto

lemma connect_resolve: "resolve (snd (connect r w)) cs = resolve w cs"
proof (rule resolve_cong[OF connect_devices])
  fix x
  from connect_names[of r w x]
  show "map_option name (objs (snd (connect r w)) x) = map_option name (objs w x)"
    by (cases "objs (snd (connect r w)) x"; cases "objs w x") auto
qed

lemma connect_error:
  "fst (connect r w) = Some e \<Longrightarrow> objs w r \<noteq> None \<Longrightarrow> e = Py KeyError"
  by (auto simp: connect_def split: option.splits list.splits sum.splits dest: resolve_error)

lemma connect_success:
  assumes "built K K w" "objs w r \<noteq> None"
  shows "fst (connect r w) = None"
proof -
  from assms(2) obtain m where m: "objs w r = Some m" by auto
  show ?thesis
  proof (cases "cfg_connections (config m)")
    case None
    with m show ?thesis by (simp add: connect_def)
  next
    case (Some cs)
    have "\<exists>c. resolve w cs = Inr c"
    proof (rule resolve_success)
      fix t ns assume "(t, ns) \<in> set cs"
      with assms(1) m Some show "t \<in> fst ` set (devices w)"
        unfolding built_def by blast
    qed
    then obtain c where "resolve w cs = Inr c" by blast
    with m Some show ?thesis by (cases cs) (simp_all add: connect_def)
  qed
qed

lemma connect_built: "built K K' w \<Longrightarrow> built K K' (snd (connect r w))"
proof -
  assume b: "built K K' w"
  from connect_cases[of r w] show ?thesis
  proof
    assume "snd (connect r w) = w"
    with b show ?thesis by simp
  next
    assume "\<exists>m cs conns. objs w r = Some m \<and> cfg_connections (config m) = Some cs \<and> cs \<noteq> []
        \<and> resolve w cs = Inr conns \<and> fst (connect r w) = None
        \<and> snd (connect r w) = w\<lparr>objs := (objs w)(r \<mapsto> m\<lparr>connections := conns\<rparr>)\<rparr>"
    then obtain m conns where m: "objs w r = Some m"
      and e: "snd (connect r w) = w\<lparr>objs := (objs w)(r \<mapsto> m\<lparr>connections := conns\<rparr>)\<rparr>"
      by blast
    show ?thesis
      unfolding e using b m unfolding built_def
      by (auto split: if_splits)
  qed
qed

lemma connect_wired_self: "fst (connect r w) = None \<Longrightarrow> wired r (snd (connect r w))"
proof -
  assume f: "fst (connect r w) = None"
  have "resolve (snd (connect r w)) cs = Inr (connections m)"
    if o: "objs (snd (connect r w)) r = Some m" and c: "cfg_connections (config m) = Some cs"
      and n: "cs \<noteq> []" for m cs
  proof -
    from connect_names[of r w r] o obtain m0 where m0: "objs w r = Some m0"
      "config m0 = config m" by (cases "objs w r") auto
    from m0 c n f obtain conns where r: "resolve w cs = Inr conns"
      and e: "snd (connect r w) = w\<lparr>objs := (objs w)(r \<mapsto> m0\<lparr>connections := conns\<rparr>)\<rparr>"
      by (cases cs) (auto simp: connect_def split: sum.splits)
    from o e have "connections m = conns" by auto
    with r show ?thesis by (simp add: connect_resolve)
  qed
  then show ?thesis unfolding wired_def by blast
qed

lemma connect_wired: "wired r w \<Longrightarrow> wired r (snd (connect x w))"
proof -
  assume d: "wired r w"
  from connect_cases[of x w] show ?thesis
  proof
    assume "snd (connect x w) = w"
    with d show ?thesis by simp
  next
    assume "\<exists>m cs conns. objs w x = Some m \<and> cfg_connections (config m) = Some cs \<and> cs \<noteq> []
        \<and> resolve w cs = Inr conns \<and> fst (connect x w) = None
        \<and> snd (connect x w) = w\<lparr>objs := (objs w)(x \<mapsto> m\<lparr>connections := conns\<rparr>)\<rparr>"
    then obtain m conns where f: "fst (connect x w) = None" and mx: "objs w x = Some m"
      and e: "snd (connect x w) = w\<lparr>objs := (objs w)(x \<mapsto> m\<lparr>connections := conns\<rparr>)\<rparr>"
      by blast
    show ?thesis
    proof (cases "x = r")
      case True
      with connect_wired_self[OF f] show ?thesis by simp
    next
      case False
      have "resolve (snd (connect x w)) cs = Inr (connections m')"
        if o: "objs (snd (connect x w)) r = Some m'" and c: "cfg_connections (config m') = Some cs"
          and n: "cs \<noteq> []" for m' cs
      proof -
        from o e False have "objs w r = Some m'" by simp
        with d c n have "resolve w cs = Inr (connections m')" unfolding wired_def by blast
        then show ?thesis by (simp add: connect_resolve)
      qed
      then show ?thesis unfolding wired_def by blast
    qed
  qed
qed


lemma connect_present: "objs w x \<noteq> None \<Longrightarrow> objs (snd (connect r w)) x \<noteq> None"
  using connect_names[of r w x] by (cases "objs (snd (connect r w)) x") auto

lemma for_each_connect_success:
  "built K K w \<Longrightarrow> (\<And>r. r \<in> set L \<Longrightarrow> objs w r \<noteq> None) \<Longrightarrow>
   fst (for_each connect L w) = None"
proof (induction L arbitrary: w)
  case Nil
  show ?case by simp
next
  case (Cons x L)
  obtain e w1 where c: "connect x w = (e, w1)" by (cases "connect x w")
  have "fst (connect x w) = None" using Cons.prems by (intro connect_success) auto
  with c have e: "e = None" by simp
  have b1: "built K K w1" using connect_built[OF Cons.prems(1), of x] c by simp
  have "fst (for_each connect L w1) = None"
  proof (rule Cons.IH[OF b1])
    fix r assume "r \<in> set L"
    then have "objs w r \<noteq> None" using Cons.prems(2) by simp
    from connect_present[OF this, of x] c show "objs w1 r \<noteq> None" by simp
  qed
  with c e show ?case by simp
qed

lemma for_each_connect_error:
  "fst (for_each connect L w) = Some e \<Longrightarrow> (\<And>r. r \<in> set L \<Longrightarrow> objs w r \<noteq> None) \<Longrightarrow>
   e = Py KeyError"
proof (induction L arbitrary: w)
  case Nil
  then show ?case by simp
next
  case (Cons x L)
  obtain e1 w1 where c: "connect x w = (e1, w1)" by (cases "connect x w")
  show ?case
  proof (cases e1)
    case None
    have "e = Py KeyError"
    proof (rule Cons.IH)
      show "fst (for_each connect L w1) = Some e" using Cons.prems(1) c None by simp
    next
      fix r assume "r \<in> set L"
      then have "objs w r \<noteq> None" using Cons.prems(2) by simp
      from connect_present[OF this, of x] c show "objs w1 r \<noteq> None" by simp
    qed
    then show ?thesis .
  next
    case (Some e')
    with Cons.prems(1) c have "e = e'" by simp
    moreover have "objs w x \<noteq> None" using Cons.prems(2) by simp
    ultimately show ?thesis using connect_error[of x w e'] c Some by simp
  qed
qed

lemma for_each_connect_wired:
  "fst (for_each connect L w) = None \<Longrightarrow> r \<in> set L \<Longrightarrow> wired r (snd (for_each connect L w))"
proof (induction L arbitrary: w)
  case Nil
  then show ?case by simp
next
  case (Cons x L)
  obtain e1 w1 where c: "connect x w = (e1, w1)" by (cases "connect x w")
  from Cons.prems(1) c have e1: "e1 = None" by (cases e1) auto
  from Cons.prems(1) c e1 have rest: "fst (for_each connect L w1) = None" by simp
  show ?case
  proof (cases "r \<in> set L")
    case True
    from Cons.IH[OF rest True] c e1 show ?thesis by simp
  next
    case False
    with Cons.prems(2) have "x = r" by simp
    with connect_wired_self[of x w] c e1 have "wired r w1" by simp
    then have "wired r (snd (for_each connect L w1))"
      by (rule for_each_preserves[where P = "wired r", rotated]) (rule connect_wired)
    with c e1 show ?thesis by simp
  qed
qed

lemma for_each_connect_built:
  assumes "built K K' w"
  shows "built K K' (snd (for_each connect L w))"
  using assms by (rule for_each_preserves[where P = "built K K'", rotated]) (rule connect_built)

lemma add_simControl_error: "add_simControl simWeather n w = Inl e \<Longrightarrow> e = Py KeyError"
  by (auto simp: add_simControl_def Let_def split: option.splits)

lemma add_simControl_success:
  assumes "''inverters'' \<in> fst ` set (devices w)" "''checkMeters'' \<in> fst ` set (devices w)"
    "''mainBreakers'' \<in> fst ` set (devices w)"
  shows "\<exists>w'. add_simControl simWeather n w = Inr w'"
proof -
  have k: "\<And>t. t \<in> fst ` set (devices w) \<Longrightarrow> t \<noteq> ''simControl'' \<Longrightarrow>
      \<exists>ds. map_of (AList.update ''simControl'' [] (devices w)) t = Some ds"
    by (simp add: update_conv') (metis map_of_eq_None_iff not_None_eq)
  from k[OF assms(1)] k[OF assms(2)] k[OF assms(3)] show ?thesis
    by (auto simp: add_simControl_def Let_def)
qed

lemma add_simControl_frame:
  assumes "add_simControl simWeather n w = Inr w'"
  shows "(\<forall>x. x \<noteq> n \<longrightarrow> objs w' x = objs w x)
    \<and> (\<forall>m. objs w' n = Some m \<longrightarrow> cfg_connections (config m) = None)
    \<and> (\<forall>t. t \<noteq> ''simControl'' \<longrightarrow> map_of (devices w') t = map_of (devices w) t)"
  using assms
  by (auto simp: add_simControl_def Let_def map_of_map_entry update_conv' split: option.splits)


lemma built_listed:
  assumes "built K K' w" "r \<in> set (concat (map snd (devices w)))"
  shows "objs w r \<noteq> None"
proof -
  from assms(2) obtain g ds where m: "(g, ds) \<in> set (devices w)" "r \<in> set ds" by auto
  from assms(1) have "distinct (map fst (devices w))" by (simp add: built_def)
  with m(1) have "map_of (devices w) g = Some ds" by simp
  with assms(1) m(2) show ?thesis unfolding built_def by blast
qed

lemma built_object_listed:
  assumes "built K K' w" "objs w r \<noteq> None"
  shows "r \<in> set (concat (map snd (devices w)))"
proof -
  from assms obtain g ds where "map_of (devices w) g = Some ds" "r \<in> set ds"
    unfolding built_def by blast
  then have "(g, ds) \<in> set (devices w)" "r \<in> set ds" by (auto dest: map_of_SomeD)
  then show ?thesis by force
qed

lemma new_world_built: "built {} K' (new_world rs)"
  by (simp add: built_def new_world_def)

lemma well_grouped_success:
  assumes d: "distinct (map fst cfg)" and wg: "well_grouped cfg"
  shows "\<exists>w. generateDevices cfg simWeather (new_world rs) = Inr w"
proof -
  let ?K = "fst ` set cfg"
  have "\<exists>n w1. instantiate_groups cfg 1 (new_world rs) = Inr (n, w1)"
  proof (rule instantiate_groups_success)
    fix g ds assume "(g, ds) \<in> set cfg"
    with wg show "ds \<noteq> [] \<longrightarrow> Simulator_modules g \<noteq> None" unfolding well_grouped_def by blast
  next
    fix g ds d' assume "(g, ds) \<in> set cfg" "d' \<in> set ds"
    with wg show "cfg_name d' \<noteq> None" unfolding well_grouped_def by blast
  qed
  then obtain n w1 where i: "instantiate_groups cfg 1 (new_world rs) = Inr (n, w1)" by blast
  have "built ({} \<union> ?K) ?K w1"
  proof (rule instantiate_groups_built[OF i new_world_built d])
    fix g ds d' cs t ns
    assume "(g, ds) \<in> set cfg" "d' \<in> set ds" "cfg_connections d' = Some cs" "(t, ns) \<in> set cs"
    with wg show "t \<in> ?K" unfolding well_grouped_def by blast
  qed simp
  then have b1: "built ?K ?K w1" by simp
  let ?L = "concat (map snd (devices w1))"
  have f: "fst (for_each connect ?L w1) = None"
    by (rule for_each_connect_success[OF b1]) (rule built_listed[OF b1])
  obtain w2 where c: "for_each connect ?L w1 = (None, w2)"
    using f by (cases "for_each connect ?L w1") auto
  have "built ?K ?K w2" using for_each_connect_built[OF b1, of ?L] c by simp
  then have k2: "fst ` set (devices w2) = ?K" by (simp add: built_def)
  have "\<exists>w. add_simControl simWeather n w2 = Inr w"
    using wg unfolding well_grouped_def by (intro add_simControl_success) (simp_all add: k2)
  with i c show ?thesis by (auto simp: generateDevices_def)
qed

lemma generateDevices_error:
  assumes d: "distinct (map fst cfg)"
    and g: "generateDevices cfg simWeather (new_world rs) = Inl e"
  shows "e = Py KeyError"
proof (cases "instantiate_groups cfg 1 (new_world rs)")
  case (Inl e')
  with g instantiate_groups_error[OF Inl] show ?thesis by (simp add: generateDevices_def)
next
  case (Inr p)
  obtain n w1 where p: "p = (n, w1)" by (cases p)
  with Inr have i: "instantiate_groups cfg 1 (new_world rs) = Inr (n, w1)" by simp
  have "built ({} \<union> fst ` set cfg) UNIV w1"
    by (rule instantiate_groups_built[OF i new_world_built d]) simp_all
  then have b1: "built (fst ` set cfg) UNIV w1" by simp
  let ?L = "concat (map snd (devices w1))"
  obtain e1 w2 where c: "for_each connect ?L w1 = (e1, w2)" by (cases "for_each connect ?L w1")
  show ?thesis
  proof (cases e1)
    case None
    with g i c have "add_simControl simWeather n w2 = Inl e" by (simp add: generateDevices_def)
    then show ?thesis by (rule add_simControl_error)
  next
    case (Some e')
    with g i c have "e = e'" by (simp add: generateDevices_def)
    moreover have "e' = Py KeyError"
      using c Some by (intro for_each_connect_error[of ?L w1 e'] built_listed[OF b1]) simp_all
    ultimately show ?thesis by simp
  qed
qed


lemma for_each_connect_devices: "devices (snd (for_each connect L w)) = devices w"
  by (rule for_each_preserves[where P = "\<lambda>w'. devices w' = devices w"])
    (simp_all add: connect_devices)

lemma for_each_connect_gen_inv:
  assumes "gen_inv n w"
  shows "gen_inv n (snd (for_each connect L w))"
  using assms by (rule for_each_preserves[where P = "gen_inv n", rotated]) (rule connect_gen_inv)

lemma resolved_member:
  "resolved w cs conns \<Longrightarrow> (t, ns) \<in> set cs \<Longrightarrow> \<exists>ds. map_of (devices w) t = Some ds"
proof (induction cs arbitrary: conns)
  case Nil
  then show ?case by simp
next
  case (Cons c cs)
  from Cons.prems(1) obtain x rest where conns: "conns = x # rest"
    and h: "(case c of (t, ns) \<Rightarrow> \<lambda>(t', refs). t' = t
          \<and> (\<exists>ds. map_of (devices w) t = Some ds \<and> refs = filter (named_in w ns) ds)) x"
    and r: "resolved w cs rest"
    by (auto simp: resolved_def list_all2_Cons1)
  show ?case
  proof (cases "c = (t, ns)")
    case True
    with h show ?thesis by (cases x) auto
  next
    case False
    with Cons.prems(2) have "(t, ns) \<in> set cs" by simp
    from Cons.IH[OF r this] show ?thesis .
  qed
qed

lemma generateDevices_resolved:
  assumes d: "distinct (map fst cfg)"
    and g: "generateDevices cfg simWeather (new_world rs) = Inr w"
    and ns: "''simControl'' \<notin> fst ` set cfg"
    and o: "objs w r = Some m" and c: "cfg_connections (config m) = Some cs" and n: "cs \<noteq> []"
  shows "resolved w cs (connections m)"
proof -
  let ?K = "fst ` set cfg"
  from g obtain n w1 w2 where
    i: "instantiate_groups cfg 1 (new_world rs) = Inr (n, w1)"
    and f: "for_each connect (concat (map snd (devices w1))) w1 = (None, w2)"
    and a: "add_simControl simWeather n w2 = Inr w"
    by (auto simp: generateDevices_def split: sum.splits prod.splits option.splits)
  have "built ({} \<union> ?K) UNIV w1"
    by (rule instantiate_groups_built[OF i new_world_built d]) simp_all
  then have b1: "built ?K UNIV w1" by simp
  have b2: "built ?K UNIV w2"
    using for_each_connect_built[OF b1, of "concat (map snd (devices w1))"] f by simp
  have "gen_inv 1 (new_world rs)" by (simp add: gen_inv_def new_world_def)
  from instantiate_groups_gen_inv[OF i this] have "gen_inv n w1" .
  from for_each_connect_gen_inv[OF this, of "concat (map snd (devices w1))"] f
  have g2: "gen_inv n w2" by simp
  note fr = add_simControl_frame[OF a]
  have rn: "r \<noteq> n" using fr o c by auto
  with fr o have o2: "objs w2 r = Some m" by simp
  have d2: "devices w2 = devices w1"
    using for_each_connect_devices[of "concat (map snd (devices w1))" w1] f by simp
  have "r \<in> set (concat (map snd (devices w2)))"
    by (rule built_object_listed[OF b2]) (simp add: o2)
  then have rl: "r \<in> set (concat (map snd (devices w1)))" by (simp add: d2)
  have "fst (for_each connect (concat (map snd (devices w1))) w1) = None" using f by simp
  from for_each_connect_wired[OF this rl] f have "wired r w2" by simp
  with o2 c n have "resolve w2 cs = Inr (connections m)" unfolding wired_def by blast
  then have r2: "resolved w2 cs (connections m)" by (rule resolve_resolved)
  have k2: "fst ` set (devices w2) = ?K" using b2 by (simp add: built_def)
  show ?thesis
  proof (rule resolved_cong[OF _ _ r2])
    fix t ns' assume "(t, ns') \<in> set cs"
    from resolved_member[OF r2 this] obtain ds where "map_of (devices w2) t = Some ds" by blast
    then have "t \<in> fst ` set (devices w2)" by (metis map_of_eq_None_iff option.distinct(1))
    with k2 have "t \<in> ?K" by simp
    with ns have "t \<noteq> ''simControl''" by blast
    with fr show "map_of (devices w) t = map_of (devices w2) t" by simp
  next
    fix t ns' ds x
    assume "(t, ns') \<in> set cs" "map_of (devices w2) t = Some ds" "x \<in> set ds"
    with g2 have "x < n" unfolding gen_inv_def by blast
    with fr show "map_option name (objs w x) = map_option name (objs w2 x)" by simp
  qed
qed


lemma made_mono:
  assumes "made w g r d"
    and "\<And>m. objs w r = Some m \<Longrightarrow>
      \<exists>m'. objs w' r = Some m' \<and> m'\<lparr>connections := []\<rparr> = m\<lparr>connections := []\<rparr>"
  shows "made w' g r d"
proof -
  from assms(1) obtain m where m: "objs w r = Some m" "slaveId m = r" "config m = d"
    "cfg_name d = Some (name m)" "moduleGroup m = g" "Simulator_modules g = Some (kind m)"
    unfolding made_def by blast
  from assms(2)[OF m(1)] obtain m' where m': "objs w' r = Some m'"
    "m'\<lparr>connections := []\<rparr> = m\<lparr>connections := []\<rparr>" by blast
  from m'(2) have "slaveId m' = slaveId m" "config m' = config m" "name m' = name m"
    "moduleGroup m' = moduleGroup m" "kind m' = kind m"
    by (cases m; cases m'; simp)+
  with m m'(1) show ?thesis unfolding made_def by auto
qed

lemma list_all2_made_mono:
  assumes "list_all2 (made w g) refs ds"
    and "\<And>r m. r \<in> set refs \<Longrightarrow> objs w r = Some m \<Longrightarrow>
      \<exists>m'. objs w' r = Some m' \<and> m'\<lparr>connections := []\<rparr> = m\<lparr>connections := []\<rparr>"
  shows "list_all2 (made w' g) refs ds"
  using assms(1)
proof (rule list.rel_mono_strong)
  fix r d
  assume "r \<in> set refs" "d \<in> set ds" "made w g r d"
  then show "made w' g r d" using assms(2) made_mono by blast
qed

lemma instantiate_made:
  assumes "instantiate g ds n w = Inr (n', w')" "gen_inv n w" "map_of (devices w) g = Some pre"
  shows "(\<exists>new. map_of (devices w') g = Some (pre @ new) \<and> list_all2 (made w' g) new ds)
    \<and> (\<forall>g'. g' \<noteq> g \<longrightarrow> map_of (devices w') g' = map_of (devices w) g')
    \<and> (\<forall>r m. objs w r = Some m \<longrightarrow> objs w' r = Some m)
    \<and> (unwired w \<longrightarrow> unwired w')"
  using assms
proof (induction ds arbitrary: n w pre)
  case Nil
  then show ?case by simp
next
  case (Cons d ds)
  from Cons.prems(1) obtain k nm where k: "Simulator_modules g = Some k"
    and nm: "cfg_name d = Some nm"
    by (auto split: option.splits)
  let ?m = "\<lparr> slaveId = n, name = nm, moduleGroup = g,
                          connections = [], config = d, kind = k \<rparr>"
  let ?w = "w\<lparr> objs := (objs w)(n \<mapsto> ?m),
                      devices := AList.map_entry g (\<lambda>ds. ds @ [n]) (devices w) \<rparr>"
  from Cons.prems(1) k nm have r: "instantiate g ds (n + 1) ?w = Inr (n', w')" by simp
  have gi: "gen_inv (n + 1) ?w"
    using Cons.prems(2) Simulator_modules_ctl[OF k]
    unfolding gen_inv_def
    by (auto simp: map_of_map_entry less_Suc_eq split: if_splits option.splits)
  have fresh: "objs w n = None"
    using Cons.prems(2) unfolding gen_inv_def by (cases "objs w n") auto
  have pre': "map_of (devices ?w) g = Some (pre @ [n])"
    using Cons.prems(3) by (simp add: map_of_map_entry)
  note ih = Cons.IH[OF r gi pre']
  from ih obtain new where new: "map_of (devices w') g = Some ((pre @ [n]) @ new)"
    "list_all2 (made w' g) new ds" by blast
  from ih have keep': "\<And>r m. objs ?w r = Some m \<Longrightarrow> objs w' r = Some m" by blast
  have "objs ?w n = Some ?m" by simp
  from keep'[OF this] k nm have mn: "made w' g n d" by (simp add: made_def)
  have 1: "\<exists>new. map_of (devices w') g = Some (pre @ new) \<and> list_all2 (made w' g) new (d # ds)"
    using new mn by (intro exI[of _ "n # new"]) simp
  have 2: "\<forall>g'. g' \<noteq> g \<longrightarrow> map_of (devices w') g' = map_of (devices w) g'"
    using ih by (simp add: map_of_map_entry)
  have 3: "\<forall>r m. objs w r = Some m \<longrightarrow> objs w' r = Some m"
  proof (intro allI impI)
    fix r m assume o: "objs w r = Some m"
    with fresh have "r \<noteq> n" by auto
    with o have "objs ?w r = Some m" by simp
    then show "objs w' r = Some m" by (rule keep')
  qed
  have 4: "unwired w \<longrightarrow> unwired w'"
  proof
    assume u: "unwired w"
    have "unwired ?w" using u unfolding unwired_def by auto
    with ih show "unwired w'" by blast
  qed
  from 1 2 3 4 show ?case by blast
qed

lemma instantiate_groups_made:
  assumes "instantiate_groups cfg n w = Inr (n', w')" "gen_inv n w" "distinct (map fst cfg)"
  shows "(\<forall>g ds. (g, ds) \<in> set cfg \<longrightarrow>
            (\<exists>refs. map_of (devices w') g = Some refs \<and> list_all2 (made w' g) refs ds))
    \<and> (\<forall>g'. g' \<notin> fst ` set cfg \<longrightarrow> map_of (devices w') g' = map_of (devices w) g')
    \<and> (\<forall>r m. objs w r = Some m \<longrightarrow> objs w' r = Some m)
    \<and> (unwired w \<longrightarrow> unwired w')"
  using assms
proof (induction cfg arbitrary: n w)
  case Nil
  then show ?case by simp
next
  case (Cons gd cfg)
  obtain g ds where gd: "gd = (g, ds)" by (cases gd)
  let ?w0 = "w\<lparr>devices := AList.update g [] (devices w)\<rparr>"
  from Cons.prems(1) gd obtain n1 w1 where
    i: "instantiate g ds n ?w0 = Inr (n1, w1)"
    and r: "instantiate_groups cfg n1 w1 = Inr (n', w')"
    by (auto split: sum.splits)
  have g0: "gen_inv n ?w0"
    using Cons.prems(2) unfolding gen_inv_def
    by (auto simp: update_conv' split: if_splits)
  have p0: "map_of (devices ?w0) g = Some []" by (simp add: update_conv')
  note h = instantiate_made[OF i g0 p0]
  from h obtain new where new: "map_of (devices w1) g = Some new" "list_all2 (made w1 g) new ds"
    by auto
  from Cons.prems(3) gd have dist: "distinct (map fst cfg)" and gn: "g \<notin> fst ` set cfg"
    by auto
  note ih = Cons.IH[OF r instantiate_gen_inv[OF i g0] dist]
  from ih have keep1: "\<And>r m. objs w1 r = Some m \<Longrightarrow> objs w' r = Some m" by blast
  have head: "\<exists>refs. map_of (devices w') g = Some refs \<and> list_all2 (made w' g) refs ds"
  proof -
    from ih gn new(1) have "map_of (devices w') g = Some new" by simp
    moreover have "list_all2 (made w' g) new ds"
      using new(2) by (rule list_all2_made_mono) (auto dest: keep1)
    ultimately show ?thesis by blast
  qed
  have 1: "\<forall>g' ds'. (g', ds') \<in> set (gd # cfg) \<longrightarrow>
            (\<exists>refs. map_of (devices w') g' = Some refs \<and> list_all2 (made w' g') refs ds')"
    using head ih gd by auto
  have 2: "\<forall>g'. g' \<notin> fst ` set (gd # cfg) \<longrightarrow> map_of (devices w') g' = map_of (devices w) g'"
  proof (intro allI impI)
    fix g' assume a: "g' \<notin> fst ` set (gd # cfg)"
    with gd have ne: "g' \<noteq> g" and nc: "g' \<notin> fst ` set cfg" by auto
    from ih nc have "map_of (devices w') g' = map_of (devices w1) g'" by blast
    also from h ne have "\<dots> = map_of (devices ?w0) g'" by blast
    also from ne have "\<dots> = map_of (devices w) g'" by (simp add: update_conv')
    finally show "map_of (devices w') g' = map_of (devices w) g'" .
  qed
  have 3: "\<forall>r m. objs w r = Some m \<longrightarrow> objs w' r = Some m"
  proof (intro allI impI)
    fix r m assume "objs w r = Some m"
    then have "objs ?w0 r = Some m" by simp
    with h have "objs w1 r = Some m" by blast
    then show "objs w' r = Some m" by (rule keep1)
  qed
  have 4: "unwired w \<longrightarrow> unwired w'"
  proof
    assume "unwired w"
    then have "unwired ?w0" by (simp add: unwired_def)
    with h have "unwired w1" by blast
    with ih show "unwired w'" by blast
  qed
  from 1 2 3 4 show ?case by blast
qed

lemma connect_module:
  "objs w x = Some m \<Longrightarrow>
   \<exists>m'. objs (snd (connect r w)) x = Some m' \<and> m'\<lparr>connections := []\<rparr> = m\<lparr>connections := []\<rparr>"
  using connect_cases[of r w] by (cases "x = r") auto

lemma connect_unwired: "unwired w \<Longrightarrow> unwired (snd (connect r w))"
  using connect_cases[of r w] unfolding unwired_def by (auto split: if_splits)

lemma for_each_connect_module:
  "objs w x = Some m \<Longrightarrow>
   \<exists>m'. objs (snd (for_each connect L w)) x = Some m'
     \<and> m'\<lparr>connections := []\<rparr> = m\<lparr>connections := []\<rparr>"
proof (rule for_each_preserves[where
      P = "\<lambda>w'. \<exists>m'. objs w' x = Some m' \<and> m'\<lparr>connections := []\<rparr> = m\<lparr>connections := []\<rparr>"])
  fix y and w' :: world
  assume "\<exists>m'. objs w' x = Some m' \<and> m'\<lparr>connections := []\<rparr> = m\<lparr>connections := []\<rparr>"
  then obtain m1 where m1: "objs w' x = Some m1"
    "m1\<lparr>connections := []\<rparr> = m\<lparr>connections := []\<rparr>" by blast
  from connect_module[OF m1(1), of y] m1(2)
  show "\<exists>m'. objs (snd (connect y w')) x = Some m'
      \<and> m'\<lparr>connections := []\<rparr> = m\<lparr>connections := []\<rparr>" by auto
qed simp

lemma for_each_connect_unwired:
  assumes "unwired w"
  shows "unwired (snd (for_each connect L w))"
  using assms by (rule for_each_preserves[where P = unwired, rotated]) (rule connect_unwired)

lemma generateDevices_device_of:
  assumes d: "distinct (map fst cfg)"
    and g: "generateDevices cfg simWeather (new_world rs) = Inr w"
    and ns: "''simControl'' \<notin> fst ` set cfg"
    and m: "(g, ds) \<in> set cfg"
  shows "\<exists>refs. map_of (devices w) g = Some refs \<and> list_all2 (device_of w g) refs ds"
proof -
  from g obtain n w1 w2 where
    i: "instantiate_groups cfg 1 (new_world rs) = Inr (n, w1)"
    and f: "for_each connect (concat (map snd (devices w1))) w1 = (None, w2)"
    and a: "add_simControl simWeather n w2 = Inr w"
    by (auto simp: generateDevices_def split: sum.splits prod.splits option.splits)
  have g0: "gen_inv 1 (new_world rs)" by (simp add: gen_inv_def new_world_def)
  have u0: "unwired (new_world rs)" by (simp add: unwired_def new_world_def)
  note h = instantiate_groups_made[OF i g0 d]
  from h m obtain refs where refs: "map_of (devices w1) g = Some refs"
    "list_all2 (made w1 g) refs ds" by blast
  from h u0 have u1: "unwired w1" by blast
  have w2: "w2 = snd (for_each connect (concat (map snd (devices w1))) w1)" using f by simp
  have d2: "devices w2 = devices w1" unfolding w2 by (rule for_each_connect_devices)
  have u2: "unwired w2" unfolding w2 by (rule for_each_connect_unwired[OF u1])
  have m2: "list_all2 (made w2 g) refs ds"
    using refs(2) unfolding w2 by (rule list_all2_made_mono) (rule for_each_connect_module)
  from instantiate_groups_gen_inv[OF i g0] have "gen_inv n w1" .
  from for_each_connect_gen_inv[OF this, of "concat (map snd (devices w1))"]
  have gi2: "gen_inv n w2" unfolding w2 .
  note fr = add_simControl_frame[OF a]
  from m ns have gs: "g \<noteq> ''simControl''" by force
  with fr d2 refs(1) have dw: "map_of (devices w) g = Some refs" by simp
  have lt: "\<And>r. r \<in> set refs \<Longrightarrow> r \<noteq> n"
    using gi2 refs(1) d2 unfolding gen_inv_def by fastforce
  have same: "\<And>r. r \<in> set refs \<Longrightarrow> objs w r = objs w2 r"
    using fr lt by blast
  have "list_all2 (device_of w g) refs ds"
    using m2
  proof (rule list.rel_mono_strong)
    fix r e
    assume r: "r \<in> set refs" and "e \<in> set ds" and md: "made w2 g r e"
    from md obtain mm where mm: "objs w2 r = Some mm" "slaveId mm = r" "config mm = e"
      "cfg_name e = Some (name mm)" "moduleGroup mm = g" "Simulator_modules g = Some (kind mm)"
      unfolding made_def by blast
    from same[OF r] mm(1) have o: "objs w r = Some mm" by simp
    have "case cfg_connections e of None \<Rightarrow> connections mm = []
        | Some cs \<Rightarrow> resolved w cs (connections mm)"
    proof (cases "cfg_connections e")
      case None
      with u2 mm(1,3) show ?thesis unfolding unwired_def by auto
    next
      case (Some cs)
      show ?thesis
      proof (cases "cs = []")
        case True
        with Some u2 mm(1,3) have "connections mm = []" unfolding unwired_def by auto
        with Some True show ?thesis by (simp add: resolved_def)
      next
        case False
        from Some mm(3) have "cfg_connections (config mm) = Some cs" by simp
        from generateDevices_resolved[OF d g ns o this False] Some
        show ?thesis by simp
      qed
    qed
    with o mm show "device_of w g r e" unfolding device_of_def by auto
  qed
  with dw show ?thesis by blast
qed


text \<open>
  Claim C4, as the code has it. On a topology given as a dictionary of groups, each a
  list of entries, \<open>generateDevices\<close> succeeds whenever the topology is \<open>well_grouped\<close>,
  a condition in which the listed connection names play no part. When it succeeds, the
  list of every group holds the devices of the group's entries, one for each entry and
  in their order, each with the name of its entry; and the connections of a device
  are, for each input type of its entry, the devices of that group whose names are
  listed, in the group's order: a listed name that no device of the group has is
  dropped without an error.
\<close>

theorem generateDevices_resolution:
  "distinct (map fst cfg) \<longrightarrow>
     (well_grouped cfg \<longrightarrow> (\<exists>w. generateDevices cfg simWeather (new_world rs) = Inr w))
     \<and> (generateDevices cfg simWeather (new_world rs) = Inr w \<longrightarrow>
          ''simControl'' \<notin> fst ` set cfg \<longrightarrow> (g, ds) \<in> set cfg \<longrightarrow>
          (\<exists>refs. map_of (devices w) g = Some refs \<and> list_all2 (device_of w g) refs ds))"
  using well_grouped_success[of cfg simWeather rs]
    generateDevices_device_of[of cfg simWeather rs w g ds]
  by blast

lemma plant_unknown_name_graph:
  "(case generateDevices plant_unknown_name False (new_world (\<lambda>n. 0)) of
      Inl e \<Rightarrow> False
    | Inr w \<Rightarrow>
        map_of (devices w) ''inverters'' = Some [1]
        \<and> map_of (devices w) ''feederBreakers'' = Some [2]
        \<and> map_option (\<lambda>m. (name m, connections m)) (objs w 1) = Some (''inverter1'', [])
        \<and> map_option (\<lambda>m. (name m, connections m)) (objs w 2)
            = Some (''feeder1Breaker'', [(''inverters'', [1])]))"
  by (simp add: build_defs plant_unknown_name_def entry_def)

lemma plant_unknown_name_well_grouped:
  "distinct (map fst plant_unknown_name) \<and> well_grouped plant_unknown_name
   \<and> ''simControl'' \<notin> fst ` set plant_unknown_name
   \<and> (''feederBreakers'',
        [entry ''feeder1Breaker'' [(''inverters'', [''inverter1'', ''ghost''])]])
      \<in> set plant_unknown_name"
  by (simp add: plant_unknown_name_def entry_def well_grouped_def Simulator_modules_def)

theorem generateDevices_resolution_witness:
  "distinct (map fst plant_unknown_name) \<and> well_grouped plant_unknown_name
   \<and> ''simControl'' \<notin> fst ` set plant_unknown_name
   \<and> (''feederBreakers'',
        [entry ''feeder1Breaker'' [(''inverters'', [''inverter1'', ''ghost''])]])
      \<in> set plant_unknown_name
   \<and> (\<exists>w. generateDevices plant_unknown_name False (new_world (\<lambda>n. 0)) = Inr w
        \<and> map_of (devices w) ''inverters'' = Some [1]
        \<and> map_of (devices w) ''feederBreakers'' = Some [2]
        \<and> list_all2 (device_of w ''feederBreakers'') [2]
            [entry ''feeder1Breaker'' [(''inverters'', [''inverter1'', ''ghost''])]]
        \<and> map_option (\<lambda>m. (name m, connections m)) (objs w 1) = Some (''inverter1'', [])
        \<and> map_option (\<lambda>m. (name m, connections m)) (objs w 2)
            = Some (''feeder1Breaker'', [(''inverters'', [1])]))"
proof -
  note wg = plant_unknown_name_well_grouped
  from generateDevices_resolution[where cfg = plant_unknown_name and simWeather = False
      and rs = "\<lambda>n. 0"] wg
  obtain w where w: "generateDevices plant_unknown_name False (new_world (\<lambda>n. 0)) = Inr w"
    by blast
  from plant_unknown_name_graph w have c:
    "map_of (devices w) ''inverters'' = Some [1]"
    "map_of (devices w) ''feederBreakers'' = Some [2]"
    "map_option (\<lambda>m. (name m, connections m)) (objs w 1) = Some (''inverter1'', [])"
    "map_option (\<lambda>m. (name m, connections m)) (objs w 2)
       = Some (''feeder1Breaker'', [(''inverters'', [1])])"
    by simp_all
  from generateDevices_resolution[where cfg = plant_unknown_name and simWeather = False
      and rs = "\<lambda>n. 0" and w = w and g = "''feederBreakers''"
      and ds = "[entry ''feeder1Breaker'' [(''inverters'', [''inverter1'', ''ghost''])]]"] wg w
  obtain refs where "map_of (devices w) ''feederBreakers'' = Some refs"
    "list_all2 (device_of w ''feederBreakers'') refs
       [entry ''feeder1Breaker'' [(''inverters'', [''inverter1'', ''ghost''])]]"
    by blast
  with c(2) have "list_all2 (device_of w ''feederBreakers'') [2]
       [entry ''feeder1Breaker'' [(''inverters'', [''inverter1'', ''ghost''])]]"
    by simp
  with wg w c show ?thesis by blast
qed

text \<open>
  The claim as the specification words it fails. In \<open>plant_unknown_name\<close> the feeder
  breaker lists \<open>inverter1\<close> and \<open>ghost\<close>, and the group of inverters holds
  \<open>inverter1\<close> only. The constructor returns, with the register files allocated, and the
  connections of the feeder breaker hold the one inverter: the entry \<open>ghost\<close> is absent
  from the device graph and nothing was raised.
\<close>

theorem generateDevices_drops_unknown_name_counterexample:
  "(case Simulator_init plant_unknown_name False (\<lambda>n. 0) of
      Inl e \<Rightarrow> False
    | Inr w \<Rightarrow>
        map_option (\<lambda>m. (name m, moduleGroup m)) (objs w 1) = Some (''inverter1'', ''inverters'')
        \<and> map_of (devices w) ''inverters'' = Some [1]
        \<and> map_option (\<lambda>m. (name m, cfg_connections (config m), connections m)) (objs w 2)
            = Some (''feeder1Breaker'', Some [(''inverters'', [''inverter1'', ''ghost''])],
                    [(''inverters'', [1])])
        \<and> slaves w 1 \<noteq> None \<and> slaves w 2 \<noteq> None)"
  by (simp add: init_defs plant_unknown_name_def entry_def)

end
